theory Spec2Isabelle
  imports Complex_Main
begin

section \<open>Python values, errors and built-ins used by vex2zapints.py\<close>

text \<open>
  The script works on Python strings (VEX dates such as \<open>2015y262d11h56m15s\<close>),
  unbounded integers and floats. Strings are \<open>string\<close>, integers are \<open>int\<close>.
  Floats are modelled as exact real numbers: every float operation of the script
  (\<open>+\<close>, \<open>-\<close>, \<open>*\<close>, \<open>/\<close>, \<open>int()\<close>, \<open>math.trunc\<close>, \<open>math.floor\<close>,
  \<open>math.ceil\<close>) is read as the exact operation, so rounding of IEEE doubles is not
  part of the model. Every exception the code can raise is a value \<open>Inl e\<close>.
  The built-ins are read as in Python 2, the language of the repository: strings are
  byte strings, and \<open>upper\<close>, \<open>split\<close> and \<open>int\<close> see ASCII letters, ASCII
  whitespace and ASCII digits.
\<close>

datatype error = ValueError | TypeError | KeyError | IndexError | ZeroDivisionError

definition ebind :: "error + 'a \<Rightarrow> ('a \<Rightarrow> error + 'b) \<Rightarrow> error + 'b" where
  "ebind m f = (case m of Inl e \<Rightarrow> Inl e | Inr x \<Rightarrow> f x)"

text \<open>\<open>int(x)\<close> and \<open>math.trunc(x)\<close> on a float: truncation toward zero.\<close>

definition py_trunc :: "real \<Rightarrow> int" where
  "py_trunc x = (if x < 0 then \<lceil>x\<rceil> else \<lfloor>x\<rfloor>)"

text \<open>ASCII classification of characters, by character code.\<close>

definition is_digit :: "char \<Rightarrow> bool" where
  "is_digit c = (48 \<le> (of_char c :: nat) \<and> (of_char c :: nat) \<le> 57)"

text \<open>The ASCII whitespace of \<open>str.split()\<close> and of \<open>int()\<close>: space, TAB, LF, VT, FF, CR.\<close>

definition is_space :: "char \<Rightarrow> bool" where
  "is_space c = ((of_char c :: nat) = 32 \<or> (9 \<le> (of_char c :: nat) \<and> (of_char c :: nat) \<le> 13))"

definition strip :: "string \<Rightarrow> string" where
  "strip s = rev (dropWhile is_space (rev (dropWhile is_space s)))"

text \<open>\<open>s[a:b]\<close> for literal bounds \<open>0 \<le> a \<le> b\<close>; a short string gives a short slice.\<close>

definition slice :: "nat \<Rightarrow> nat \<Rightarrow> string \<Rightarrow> string" where
  "slice a b s = take (b - a) (drop a s)"

text \<open>\<open>s.upper()\<close> on ASCII letters.\<close>

definition upper_char :: "char \<Rightarrow> char" where
  "upper_char c = (if 97 \<le> (of_char c :: nat) \<and> (of_char c :: nat) \<le> 122
                   then char_of ((of_char c :: nat) - 32) else c)"

definition upper :: "string \<Rightarrow> string" where
  "upper s = map upper_char s"

text \<open>The value of a string of decimal digits, most significant digit first.\<close>

definition digits_val :: "string \<Rightarrow> nat" where
  "digits_val s = foldl (\<lambda>acc c. 10 * acc + ((of_char c :: nat) - 48)) 0 s"

definition all_digits :: "string \<Rightarrow> bool" where
  "all_digits s = (s \<noteq> [] \<and> list_all is_digit s)"

text \<open>
  \<open>int(s)\<close> on a string: surrounding whitespace is stripped, one optional sign, then
  at least one decimal digit; anything else raises \<open>ValueError\<close>.
\<close>

definition int_of_str :: "string \<Rightarrow> error + int" where
  "int_of_str s =
     (case strip s of
        [] \<Rightarrow> Inl ValueError
      | c # r \<Rightarrow>
          if c = CHR ''-'' then (if all_digits r then Inr (- int (digits_val r)) else Inl ValueError)
          else if c = CHR ''+'' then (if all_digits r then Inr (int (digits_val r)) else Inl ValueError)
          else if all_digits (c # r) then Inr (int (digits_val (c # r)))
          else Inl ValueError)"

text \<open>The arguments \<open>int()\<close> receives in the script: an integer, a float or a string.\<close>

datatype pyval = PInt int | PFloat real | PStr string

fun py_int :: "pyval \<Rightarrow> error + int" where
  "py_int (PInt n) = Inr n"
| "py_int (PFloat x) = Inr (py_trunc x)"
| "py_int (PStr s) = int_of_str s"

text \<open>\<open>str(n)\<close> for a natural number, and \<open>'%0wd' % n\<close> for an integer.\<close>

fun dec_digits :: "nat \<Rightarrow> string" where
  "dec_digits n =
     (if n < 10 then [char_of (48 + n)]
      else dec_digits (n div 10) @ [char_of (48 + n mod 10)])"

declare dec_digits.simps [simp del]

definition fmt_d :: "nat \<Rightarrow> int \<Rightarrow> string" where
  "fmt_d w n =
     (let ds = dec_digits (nat \<bar>n\<bar>) in
      if n < 0 then CHR ''-'' # replicate (w - 1 - length ds) (CHR ''0'') @ ds
      else replicate (w - length ds) (CHR ''0'') @ ds)"

section \<open>Date conversion\<close>

text \<open>
  \<open>datetime.date\<close> of the standard library: a proleptic Gregorian calendar date.
  The script builds \<open>date(yr, 1, 1)\<close>, adds \<open>doy - 1\<close> days through the ordinal and
  reads month and day. The ordinal arithmetic is modelled by stepping days; the
  constructor and \<open>fromordinal\<close> raise \<open>ValueError\<close> outside the years 1 to 9999.
\<close>

definition is_leap :: "int \<Rightarrow> bool" where
  "is_leap y = (y mod 4 = 0 \<and> (y mod 100 \<noteq> 0 \<or> y mod 400 = 0))"

definition days_in_month :: "int \<Rightarrow> int \<Rightarrow> int" where
  "days_in_month y m =
     (if m = 2 then (if is_leap y then 29 else 28)
      else if m = 4 \<or> m = 6 \<or> m = 9 \<or> m = 11 then 30 else 31)"

fun next_day :: "int \<times> int \<times> int \<Rightarrow> int \<times> int \<times> int" where
  "next_day (y, m, d) =
     (if d < days_in_month y m then (y, m, d + 1)
      else if m < 12 then (y, m + 1, 1)
      else (y + 1, 1, 1))"

fun prev_day :: "int \<times> int \<times> int \<Rightarrow> int \<times> int \<times> int" where
  "prev_day (y, m, d) =
     (if 1 < d then (y, m, d - 1)
      else if 1 < m then (y, m - 1, days_in_month y (m - 1))
      else (y - 1, 12, 31))"

definition add_days :: "int \<Rightarrow> int \<times> int \<times> int \<Rightarrow> int \<times> int \<times> int" where
  "add_days k dt = (if 0 \<le> k then (next_day ^^ nat k) dt else (prev_day ^^ nat (- k)) dt)"

text \<open>
  \<open>datetime.date.fromordinal(datetime.date(yr,1,1).toordinal() + doy - 1)\<close>
  (line 57 of the script).
\<close>

definition date_of_doy :: "int \<Rightarrow> int \<Rightarrow> error + (int \<times> int \<times> int)" where
  "date_of_doy yr doy =
     (if yr < 1 \<or> 9999 < yr then Inl ValueError
      else let dt = add_days (doy - 1) (yr, 1, 1) in
           if fst dt < 1 \<or> 9999 < fst dt then Inl ValueError else Inr dt)"

text \<open>
  \<open>date_to_jd\<close> (lines 104-126). \<open>jd_B\<close>, \<open>jd_C\<close> and \<open>jd_D\<close> are the local
  variables \<open>B\<close>, \<open>C\<close> and \<open>D\<close>; \<open>jd_yearp\<close> and \<open>jd_monthp\<close> are \<open>yearp\<close> and
  \<open>monthp\<close>.
\<close>

definition jd_yearp :: "int \<Rightarrow> int \<Rightarrow> int" where
  "jd_yearp year month = (if month = 1 \<or> month = 2 then year - 1 else year)"

definition jd_monthp :: "int \<Rightarrow> int" where
  "jd_monthp month = (if month = 1 \<or> month = 2 then month + 12 else month)"

definition jd_B :: "int \<Rightarrow> int \<Rightarrow> int \<Rightarrow> int" where
  "jd_B year month day =
     (if year < 1582 \<or> (year = 1582 \<and> month < 10) \<or> (year = 1582 \<and> month = 10 \<and> day < 15)
      then 0
      else let A = py_trunc (real_of_int (jd_yearp year month) / 100)
           in 2 - A + py_trunc (real_of_int A / 4))"

definition jd_C :: "int \<Rightarrow> int \<Rightarrow> int" where
  "jd_C year month =
     (let yearp = jd_yearp year month in
      if yearp < 0 then py_trunc (365.25 * real_of_int yearp - 0.75)
      else py_trunc (365.25 * real_of_int yearp))"

definition jd_D :: "int \<Rightarrow> int" where
  "jd_D month = py_trunc (30.6001 * real_of_int (jd_monthp month + 1))"

definition date_to_jd :: "int \<Rightarrow> int \<Rightarrow> int \<Rightarrow> real" where
  "date_to_jd year month day =
     real_of_int (jd_B year month day + jd_C year month + jd_D month + day) + 1720994.5"

text \<open>\<open>dateVEX2split\<close> (lines 47-65): the dictionary it returns, as a record.\<close>

record vexsplit =
  vex :: string
  yr :: int
  doy :: int
  hh :: int
  mm :: int
  ss :: int
  mon :: int
  mday :: int
  mjd :: real

definition dateVEX2split :: "string \<Rightarrow> error + vexsplit" where
  "dateVEX2split vdate =
     ebind (int_of_str (slice 0 4 vdate)) (\<lambda>y.
     ebind (int_of_str (slice 5 8 vdate)) (\<lambda>d.
     ebind (int_of_str (slice 9 11 vdate)) (\<lambda>h.
     ebind (int_of_str (slice 12 14 vdate)) (\<lambda>m.
     ebind (int_of_str (slice 15 17 vdate)) (\<lambda>s.
     ebind (date_of_doy y d) (\<lambda>dt.
       let jdfract = (real_of_int h - 12 + real_of_int m / 60 + real_of_int s / 3600) / 24
       in Inr \<lparr>vex = vdate, yr = y, doy = d, hh = h, mm = m, ss = s,
               mon = fst (snd dt), mday = snd (snd dt),
               mjd = date_to_jd (fst dt) (fst (snd dt)) (snd (snd dt)) + 0.5 - 2400000.5 + jdfract\<rparr>))))))"

text \<open>\<open>dateVEX2sec\<close> (lines 67-73): seconds of year, a float.\<close>

definition dateVEX2sec :: "string \<Rightarrow> error + real" where
  "dateVEX2sec vdate =
     ebind (int_of_str (slice 5 8 vdate)) (\<lambda>d.
     ebind (int_of_str (slice 9 11 vdate)) (\<lambda>h.
     ebind (int_of_str (slice 12 14 vdate)) (\<lambda>m.
     ebind (int_of_str (slice 15 17 vdate)) (\<lambda>s.
       Inr (real_of_int s + 60 * real_of_int m + 3600 * real_of_int h + 86400 * real_of_int d)))))"

text \<open>The format \<open>'%04dy%03dd%02dh%02dm%02ds'\<close> of line 84.\<close>

definition vexfmt :: "int \<Rightarrow> int \<Rightarrow> int \<Rightarrow> int \<Rightarrow> int \<Rightarrow> string" where
  "vexfmt y d h m s =
     fmt_d 4 y @ ''y'' @ fmt_d 3 d @ ''d'' @ fmt_d 2 h @ ''h'' @ fmt_d 2 m @ ''m'' @ fmt_d 2 s @ ''s''"

text \<open>
  \<open>dateSec2VEX\<close> (lines 75-84). The source has no check on \<open>sec\<close> or \<open>year\<close>; the
  only failure is \<open>int(year)\<close> on a string that is not a number.
\<close>

definition dateSec2VEX :: "real \<Rightarrow> pyval \<Rightarrow> error + string" where
  "dateSec2VEX sec year =
     (let doy = py_trunc (sec / 86400);
          R1 = sec - real_of_int doy * 86400;
          hh = py_trunc (R1 / 3600);
          R2 = R1 - real_of_int hh * 3600;
          mm = py_trunc (R2 / 60);
          R3 = R2 - real_of_int mm * 60;
          ss = py_trunc R3
      in ebind (py_int year) (\<lambda>y. Inr (vexfmt y doy hh mm ss)))"

text \<open>\<open>dateVEXaddsec\<close> (lines 86-91).\<close>

definition dateVEXaddsec :: "string \<Rightarrow> int \<Rightarrow> error + string" where
  "dateVEXaddsec vdate sec =
     (let yr = slice 0 4 vdate in
      ebind (dateVEX2sec vdate) (\<lambda>s. dateSec2VEX (s + real_of_int sec) (PStr yr)))"

section \<open>The schedule and the pipeline\<close>

text \<open>
  \<open>vex['SCHED']\<close> is an ordered dictionary from scan names to scans, here an
  association list in file order: iteration yields the keys (\<open>map fst\<close>), \<open>d[k]\<close>
  is the first entry with key \<open>k\<close>, \<open>del d[k]\<close> removes the entries with key
  \<open>k\<close>, and both raise \<open>KeyError\<close> for an absent key. A scan has a start time (a
  VEX date string), a source name, and one line per station; \<open>st[0]\<close> is the station
  name and \<open>st[2]\<close> a string such as \<open>300 sec\<close>.
\<close>

type_synonym station_line = "string \<times> string \<times> string"

record scan =
  start :: string
  source :: string
  station :: "station_line list"

type_synonym sched = "(string \<times> scan) list"

definition getitem :: "('k \<times> 'v) list \<Rightarrow> 'k \<Rightarrow> error + 'v" where
  "getitem d k = (case map_of d k of None \<Rightarrow> Inl KeyError | Some v \<Rightarrow> Inr v)"

definition delitem :: "('k \<times> 'v) list \<Rightarrow> 'k \<Rightarrow> error + ('k \<times> 'v) list" where
  "delitem d k =
     (case map_of d k of None \<Rightarrow> Inl KeyError | Some v \<Rightarrow> Inr (filter (\<lambda>p. fst p \<noteq> k) d))"

text \<open>\<open>any([st[0].upper() == telescope for st in stations])\<close> (line 178).\<close>

definition on_station :: "string \<Rightarrow> scan \<Rightarrow> bool" where
  "on_station telescope sc = list_ex (\<lambda>st. upper (fst st) = telescope) (station sc)"

text \<open>
  The station filter (lines 176-179) and the source filter (lines 197-199): a loop over
  the snapshot \<open>scannames\<close> of the keys that deletes from \<open>scans\<close> in place. The
  functions return the dictionary after the loop.
\<close>

fun station_loop :: "string \<Rightarrow> string list \<Rightarrow> sched \<Rightarrow> error + sched" where
  "station_loop telescope [] scans = Inr scans"
| "station_loop telescope (k # ks) scans =
     (case getitem scans k of
        Inl e \<Rightarrow> Inl e
      | Inr sc \<Rightarrow>
          if \<not> on_station telescope sc
          then (case delitem scans k of
                  Inl e \<Rightarrow> Inl e
                | Inr scans' \<Rightarrow> station_loop telescope ks scans')
          else station_loop telescope ks scans)"

fun source_loop :: "string \<Rightarrow> string list \<Rightarrow> sched \<Rightarrow> error + sched" where
  "source_loop src [] scans = Inr scans"
| "source_loop src (k # ks) scans =
     (case getitem scans k of
        Inl e \<Rightarrow> Inl e
      | Inr sc \<Rightarrow>
          if source sc \<noteq> src
          then (case delitem scans k of
                  Inl e \<Rightarrow> Inl e
                | Inr scans' \<Rightarrow> source_loop src ks scans')
          else source_loop src ks scans)"

text \<open>
  The module-level variables \<open>fb_Tstart\<close> and \<open>fb_Tint\<close> that \<open>doFlag\<close> reads.
  \<open>fb_Tstart\<close> is a float, or the start string of the first scan when no start MJD
  was given (line 190).
\<close>

record globals =
  fb_Tstart :: pyval
  fb_Tint :: real

text \<open>\<open>(m - fb_Tstart)/fb_Tint\<close> for a float \<open>m\<close> (lines 96 and 97).\<close>

definition mjd_offset :: "globals \<Rightarrow> real \<Rightarrow> error + real" where
  "mjd_offset g m =
     (case fb_Tstart g of
        PStr s \<Rightarrow> Inl TypeError
      | PInt n \<Rightarrow> (if fb_Tint g = 0 then Inl ZeroDivisionError
                   else Inr ((m - real_of_int n) / fb_Tint g))
      | PFloat t \<Rightarrow> (if fb_Tint g = 0 then Inl ZeroDivisionError
                     else Inr ((m - t) / fb_Tint g)))"

text \<open>
  \<open>doFlag\<close> (lines 93-102). Its parameters \<open>fb_tstart\<close> and \<open>fb_tint\<close> are not
  read by the body, which uses the globals; \<open>zapints_list\<close> is returned updated. The
  \<open>print\<close> of line 101 is not modelled.
\<close>

definition doFlag ::
  "globals \<Rightarrow> string \<Rightarrow> string \<Rightarrow> pyval \<Rightarrow> real \<Rightarrow> string list \<Rightarrow> error + string list" where
  "doFlag g vex_tstart vex_tstop fb_tstart fb_tint zapints_list =
     ebind (dateVEX2split vex_tstart) (\<lambda>t1.
     ebind (dateVEX2split vex_tstop) (\<lambda>t2.
     ebind (mjd_offset g (mjd t1)) (\<lambda>x1.
     ebind (mjd_offset g (mjd t2)) (\<lambda>x2.
       let flag_startint = max 0 \<lfloor>x1\<rfloor>;
           flag_stopint = max 0 \<lceil>x2\<rceil>
       in if flag_startint = flag_stopint then Inr zapints_list
          else Inr (zapints_list @ [fmt_d 0 flag_startint @ '':'' @ fmt_d 0 flag_stopint])))))"

text \<open>\<open>st[2].split()[0]\<close>: the first whitespace-delimited token (line 217).\<close>

definition first_token :: "string \<Rightarrow> error + string" where
  "first_token s =
     (case dropWhile is_space s of
        [] \<Rightarrow> Inl IndexError
      | c # r \<Rightarrow> Inr (takeWhile (\<lambda>x. \<not> is_space x) (c # r)))"

text \<open>\<open>dur_sec = int(st[2].split()[0])\<close> (line 217).\<close>

definition dwell_sec :: "station_line \<Rightarrow> error + int" where
  "dwell_sec l = ebind (first_token (snd (snd l))) int_of_str"

text \<open>
  The zap loop (lines 208-218). The state is the cursor \<open>zap_tstart\<close> and the list
  that \<open>doFlag\<close> appends to. The call of \<open>doFlag\<close> is the parameter \<open>flag\<close>, so
  that the calls themselves can be observed; the script is the instance
  \<open>flag = (\<lambda>a b. doFlag g a b (fb_Tstart g) (fb_Tint g))\<close>.
  \<open>zap_stations\<close> is the inner loop over the station lines of one scan; the scan's
  start, read again at line 213 in every round, is its argument \<open>zap_tstop\<close>.
\<close>

fun zap_stations ::
  "(string \<Rightarrow> string \<Rightarrow> 'a \<Rightarrow> error + 'a) \<Rightarrow> string \<Rightarrow> string \<Rightarrow> station_line list
     \<Rightarrow> string \<times> 'a \<Rightarrow> error + (string \<times> 'a)" where
  "zap_stations flag telescope zap_tstop [] st = Inr st"
| "zap_stations flag telescope zap_tstop (l # ls) st =
     (if \<not> (upper (fst l) = telescope) then zap_stations flag telescope zap_tstop ls st
      else case flag (fst st) zap_tstop (snd st) of
             Inl e \<Rightarrow> Inl e
           | Inr acc \<Rightarrow>
               (case dwell_sec l of
                  Inl e \<Rightarrow> Inl e
                | Inr dur_sec \<Rightarrow>
                    (case dateVEXaddsec zap_tstop dur_sec of
                       Inl e \<Rightarrow> Inl e
                     | Inr z \<Rightarrow> zap_stations flag telescope zap_tstop ls (z, acc))))"

fun zap_loop ::
  "(string \<Rightarrow> string \<Rightarrow> 'a \<Rightarrow> error + 'a) \<Rightarrow> string \<Rightarrow> string list \<Rightarrow> sched
     \<Rightarrow> string \<times> 'a \<Rightarrow> error + (string \<times> 'a)" where
  "zap_loop flag telescope [] scans st = Inr st"
| "zap_loop flag telescope (k # ks) scans st =
     (case getitem scans k of
        Inl e \<Rightarrow> Inl e
      | Inr sc \<Rightarrow>
          (case zap_stations flag telescope (start sc) (station sc) st of
             Inl e \<Rightarrow> Inl e
           | Inr st' \<Rightarrow> zap_loop flag telescope ks scans st'))"

text \<open>
  Lines 207-221: the cursor starts at the start of \<open>scan_1\<close>, the loop runs over the
  source-filtered scans, and a last call flags up to the nominal stop unless the cursor
  equals the start of \<open>scan_N\<close>.
\<close>

definition zap_all ::
  "(string \<Rightarrow> string \<Rightarrow> 'a \<Rightarrow> error + 'a) \<Rightarrow> string \<Rightarrow> scan \<Rightarrow> scan \<Rightarrow> string \<Rightarrow> sched
     \<Rightarrow> 'a \<Rightarrow> error + 'a" where
  "zap_all flag telescope scan_1 scan_N nominal_stop scans acc =
     (case zap_loop flag telescope (map fst scans) scans (start scan_1, acc) of
        Inl e \<Rightarrow> Inl e
      | Inr (zap_tstart, acc') \<Rightarrow>
          if start scan_N \<noteq> zap_tstart then flag zap_tstart nominal_stop acc'
          else Inr acc')"

text \<open>
  The script from line 157 on. Inputs: the start MJD and the integration time in
  seconds (each \<open>None\<close> when neither the option nor a filterbank file gave it), the
  \<open>--blocks\<close> value, the source and telescope arguments, the experiment's
  \<open>exper_nominal_stop\<close> and the schedule. The outcome is an exception, \<open>sys.exit(0)\<close>
  after a "nothing to do" message, or the list written to \<open>zapints.cmd\<close>; the last two
  carry the schedule dictionary as the run leaves it. \<open>pipeline\<close> has the call of
  \<open>doFlag\<close> and the initial list as parameters; \<open>run\<close> is the script.
\<close>

datatype 'a outcome = Raised error | NothingToDo sched | Finished sched 'a

definition pipeline ::
  "(globals \<Rightarrow> string \<Rightarrow> string \<Rightarrow> 'a \<Rightarrow> error + 'a) \<Rightarrow> 'a
     \<Rightarrow> real option \<Rightarrow> real option \<Rightarrow> int \<Rightarrow> string \<Rightarrow> string \<Rightarrow> string \<Rightarrow> sched
     \<Rightarrow> 'a outcome" where
  "pipeline flag zapints_list startmjd tint blocks src telescope_arg nominal_stop scans0 =
     (let telescope = upper telescope_arg in
      case tint of
        None \<Rightarrow> Raised TypeError
      | Some ti \<Rightarrow>
         (let tint_blocks = ti / 86400 * 480 * real_of_int blocks in
          if length scans0 \<le> 1 then NothingToDo scans0
          else (case station_loop telescope (map fst scans0) scans0 of
            Inl e \<Rightarrow> Raised e
          | Inr scans1 \<Rightarrow>
             (if length scans1 \<le> 1 then NothingToDo scans1
              else (case getitem scans1 (hd (map fst scans1)) of
                Inl e \<Rightarrow> Raised e
              | Inr scan_1 \<Rightarrow>
                 (case getitem scans1 (last (map fst scans1)) of
                    Inl e \<Rightarrow> Raised e
                  | Inr scan_N \<Rightarrow>
                     (let g = \<lparr>fb_Tstart = (case startmjd of
                                               None \<Rightarrow> PStr (start scan_1)
                                             | Some t \<Rightarrow> PFloat t),
                               fb_Tint = tint_blocks\<rparr>
                      in (case source_loop src (map fst scans1) scans1 of
                            Inl e \<Rightarrow> Raised e
                          | Inr scans2 \<Rightarrow>
                             (if length scans2 < 1 then NothingToDo scans2
                              else (case zap_all (flag g) telescope scan_1 scan_N
                                           nominal_stop scans2 zapints_list of
                                      Inl e \<Rightarrow> Raised e
                                    | Inr zl \<Rightarrow> Finished scans2 zl))))))))))"

definition run ::
  "real option \<Rightarrow> real option \<Rightarrow> int \<Rightarrow> string \<Rightarrow> string \<Rightarrow> string \<Rightarrow> sched
     \<Rightarrow> string list outcome" where
  "run = pipeline (\<lambda>g a b. doFlag g a b (fb_Tstart g) (fb_Tint g)) []"

section \<open>Auxiliary notions for the properties\<close>

text \<open>The two filters as predicates on a dictionary entry.\<close>

definition station_ok :: "string \<Rightarrow> string \<times> scan \<Rightarrow> bool" where
  "station_ok telescope p = on_station telescope (snd p)"

definition source_ok :: "string \<Rightarrow> string \<times> scan \<Rightarrow> bool" where
  "source_ok src p = (source (snd p) = src)"

text \<open>
  The common shape of the two filter loops, with the test that keeps a scan as a
  parameter.
\<close>

fun del_loop :: "(scan \<Rightarrow> bool) \<Rightarrow> string list \<Rightarrow> sched \<Rightarrow> error + sched" where
  "del_loop keep [] scans = Inr scans"
| "del_loop keep (k # ks) scans =
     (case getitem scans k of
        Inl e \<Rightarrow> Inl e
      | Inr sc \<Rightarrow>
          if \<not> keep sc
          then (case delitem scans k of
                  Inl e \<Rightarrow> Inl e
                | Inr scans' \<Rightarrow> del_loop keep ks scans')
          else del_loop keep ks scans)"

text \<open>The station lines of a scan that name the telescope.\<close>

definition station_lines :: "string \<Rightarrow> scan \<Rightarrow> station_line list" where
  "station_lines telescope sc = filter (\<lambda>l. upper (fst l) = telescope) (station sc)"

text \<open>An observer for the calls of \<open>doFlag\<close>: it appends the pair of arguments.\<close>

definition record_call ::
  "string \<Rightarrow> string \<Rightarrow> (string \<times> string) list \<Rightarrow> error + (string \<times> string) list" where
  "record_call a b acc = Inr (acc @ [(a, b)])"

text \<open>A calendar date with a month from 1 to 12 and a day that the month has.\<close>

definition valid_date :: "int \<times> int \<times> int \<Rightarrow> bool" where
  "valid_date dt = (case dt of (y, m, d) \<Rightarrow> 1 \<le> m \<and> m \<le> 12 \<and> 1 \<le> d \<and> d \<le> days_in_month y m)"

text \<open>
  The leap days up to a year, and the integer day number that \<open>date_to_jd\<close> computes
  on its Gregorian branch (without the constant \<open>1720994.5\<close>).
\<close>

definition leap_count :: "int \<Rightarrow> int" where
  "leap_count y = y div 4 - y div 100 + y div 400"

definition jdn :: "int \<Rightarrow> int \<Rightarrow> int \<Rightarrow> int" where
  "jdn y m d =
     2 + 365 * jd_yearp y m + leap_count (jd_yearp y m)
       + (306001 * (jd_monthp m + 1)) div 10000 + d"

definition jdn_of :: "int \<times> int \<times> int \<Rightarrow> int" where
  "jdn_of dt = (case dt of (y, m, d) \<Rightarrow> jdn y m d)"

text \<open>A date before 1582-10-15, compared as (year, month, day).\<close>

definition before_cutover :: "int \<Rightarrow> int \<Rightarrow> int \<Rightarrow> bool" where
  "before_cutover y m d = (y < 1582 \<or> (y = 1582 \<and> (m < 10 \<or> (m = 10 \<and> d < 15))))"

text \<open>
  The Gregorian correction \<open>B\<close> as a function of \<open>yearp\<close>; the integer that
  \<open>date_to_jd\<close> adds to \<open>1720994.5\<close>, on either branch; \<open>yearp\<close> of a date; and
  the day of year, counted from 1 January of year \<open>y\<close>, on which 15 October 1582 falls
  (below 1 for later years).
\<close>

definition greg_corr :: "int \<Rightarrow> int" where
  "greg_corr x = 2 - x div 100 + x div 400"

definition jd_int :: "int \<times> int \<times> int \<Rightarrow> int" where
  "jd_int dt = (case dt of (y, m, d) \<Rightarrow>
     jdn y m d - (if before_cutover y m d then greg_corr (jd_yearp y m) else 0))"

definition yearp_of :: "int \<times> int \<times> int \<Rightarrow> int" where
  "yearp_of dt = (case dt of (y, m, d) \<Rightarrow> jd_yearp y m)"

definition cutover_doy :: "int \<Rightarrow> int" where
  "cutover_doy y = jdn 1582 10 15 - jdn y 1 1 + 1"

text \<open>The order of two timestamps of one year: day of year, hour, minute, second.\<close>

definition earlier :: "vexsplit \<Rightarrow> vexsplit \<Rightarrow> bool" where
  "earlier a b =
     (doy a < doy b \<or> (doy a = doy b \<and>
       (hh a < hh b \<or> (hh a = hh b \<and>
         (mm a < mm b \<or> (mm a = mm b \<and> ss a < ss b))))))"

definition valid_hms :: "vexsplit \<Rightarrow> bool" where
  "valid_hms a = (1 \<le> doy a \<and> 0 \<le> hh a \<and> hh a \<le> 23 \<and> 0 \<le> mm a \<and> mm a \<le> 59
                  \<and> 0 \<le> ss a \<and> ss a \<le> 59)"

text \<open>The seconds of year of a split date, as an integer.\<close>

definition secs_of :: "vexsplit \<Rightarrow> int" where
  "secs_of t = ss t + 60 * mm t + 3600 * hh t + 86400 * doy t"

text \<open>
  The schedule of the worked example: three scans of station \<open>stationA\<close>, 300 s each,
  on X at 11:00:00, on Y at 11:10:00 and on X at 11:20:00 of day 262 of 2015.
\<close>

definition ex_sched :: sched where
  "ex_sched =
     [(''No0001'', \<lparr>start = ''2015y262d11h00m00s'', source = ''X'',
                    station = [(''stationA'', ''0 sec'', ''300 sec'')]\<rparr>),
      (''No0002'', \<lparr>start = ''2015y262d11h10m00s'', source = ''Y'',
                    station = [(''stationA'', ''0 sec'', ''300 sec'')]\<rparr>),
      (''No0003'', \<lparr>start = ''2015y262d11h20m00s'', source = ''X'',
                    station = [(''stationA'', ''0 sec'', ''300 sec'')]\<rparr>)]"

text \<open>
  The globals of the worked example: the reference start is the MJD of 11:00:00 on day
  262 of 2015, and the block lasts 300 s (0.625 s integration time, 480 samples, one
  block), in days.
\<close>

definition ex_globals :: globals where
  "ex_globals = \<lparr>fb_Tstart = PFloat (57284 + 11 / 24), fb_Tint = 0.625 / 86400 * 480 * 1\<rparr>"

text \<open>A schedule of two scans of which one only includes station \<open>Ku\<close>.\<close>

definition one_station_sched :: sched where
  "one_station_sched =
     [(''No0001'', \<lparr>start = ''2015y262d11h00m00s'', source = ''X'',
                    station = [(''Ku'', ''0 sec'', ''300 sec'')]\<rparr>),
      (''No0002'', \<lparr>start = ''2015y262d11h10m00s'', source = ''X'',
                    station = [(''Kt'', ''0 sec'', ''300 sec'')]\<rparr>)]"

section \<open>Truncation and the day number of \<open>date_to_jd\<close>\<close>

lemma py_trunc_nonneg: "0 \<le> x \<Longrightarrow> py_trunc x = \<lfloor>x\<rfloor>"
  by (simp add: py_trunc_def)

lemma py_trunc_div_int: "0 \<le> a \<Longrightarrow> 0 < b \<Longrightarrow> py_trunc (real_of_int a / real_of_int b) = a div b"
  by (simp add: py_trunc_nonneg floor_divide_of_int_eq)

lemma trunc_div100: "0 \<le> a \<Longrightarrow> py_trunc (real_of_int a / 100) = a div 100"
  using py_trunc_div_int [of a 100] by simp

lemma trunc_div4: "0 \<le> a \<Longrightarrow> py_trunc (real_of_int a / 4) = a div 4"
  using py_trunc_div_int [of a 4] by simp

lemma trunc_36525: "0 \<le> a \<Longrightarrow> py_trunc (365.25 * real_of_int a) = 365 * a + a div 4"
proof -
  assume a: "0 \<le> a"
  have "365.25 * real_of_int a = real_of_int (1461 * a) / real_of_int 4" by simp
  then have "py_trunc (365.25 * real_of_int a) = (1461 * a) div 4"
    using py_trunc_div_int [of "1461 * a" 4] a by simp
  also have "1461 * a = a + 365 * a * 4" by simp
  also have "(a + 365 * a * 4) div 4 = 365 * a + a div 4" by simp
  finally show ?thesis .
qed

lemma trunc_306001: "0 \<le> k \<Longrightarrow> py_trunc (30.6001 * real_of_int k) = (306001 * k) div 10000"
proof -
  assume k: "0 \<le> k"
  have "30.6001 * real_of_int k = real_of_int (306001 * k) / real_of_int 10000" by simp
  then show ?thesis
    using py_trunc_div_int [of "306001 * k" 10000] k by simp
qed

lemma div100_4: "(a::int) div 100 div 4 = a div 400"
  by (simp add: div_mult2_eq [symmetric])

lemma div_step:
  assumes "0 < (k::int)"
  shows "y div k = (y - 1) div k + (if y mod k = 0 then 1 else 0)"
proof (cases "y mod k = 0")
  case True
  have "y - 1 = k * (y div k - 1) + (k - 1)"
    using True by (simp add: algebra_simps mod_eq_0_iff_dvd)
  then have "(y - 1) div k = y div k - 1"
    using assms by (intro int_div_pos_eq [of _ _ _ "k - 1"]) auto
  with True show ?thesis by simp
next
  case False
  then have pos: "0 < y mod k" using assms
    by (metis less_le pos_mod_sign)
  have lt: "y mod k < k" using assms by (rule pos_mod_bound)
  have "y - 1 = k * (y div k) + (y mod k - 1)"
    by (simp add: algebra_simps)
  then have "(y - 1) div k = y div k"
    using assms pos lt by (intro int_div_pos_eq [of _ _ _ "y mod k - 1"]) auto
  with False show ?thesis by simp
qed

lemma mod400_100: "(y::int) mod 400 = 0 \<Longrightarrow> y mod 100 = 0"
  using mod_mod_cancel [of 100 400 y] by simp

lemma mod100_4: "(y::int) mod 100 = 0 \<Longrightarrow> y mod 4 = 0"
  using mod_mod_cancel [of 4 100 y] by simp

lemma leap_arith:
  fixes a b c a' b' c' :: int
  assumes "a = a' + (if p4 then 1 else 0)" "b = b' + (if p100 then 1 else 0)"
    "c = c' + (if p400 then 1 else 0)" "p400 \<longrightarrow> p100" "p100 \<longrightarrow> p4"
  shows "a - b + c = a' - b' + c' + (if p4 \<and> (\<not> p100 \<or> p400) then 1 else 0)"
  using assms by (cases p4; cases p100; cases p400; simp)

lemma leap_step: "leap_count y = leap_count (y - 1) + (if is_leap y then 1 else 0)"
  unfolding is_leap_def leap_count_def
  by (rule leap_arith) (rule div_step, simp, rule div_step, simp, rule div_step, simp,
      rule impI, erule mod400_100, rule impI, erule mod100_4)

lemma date_to_jd_int:
  assumes "1 \<le> y" "1 \<le> m"
  shows "date_to_jd y m d = real_of_int (jd_int (y, m, d)) + 1720994.5"
proof -
  have yp: "0 \<le> jd_yearp y m" using assms by (simp add: jd_yearp_def)
  have yp100: "0 \<le> jd_yearp y m div 100" using yp by simp
  have mp: "0 \<le> jd_monthp m + 1" using assms by (simp add: jd_monthp_def)
  have bc: "before_cutover y m d
      = (y < 1582 \<or> (y = 1582 \<and> m < 10) \<or> (y = 1582 \<and> m = 10 \<and> d < 15))"
    by (auto simp: before_cutover_def)
  have B: "jd_B y m d = (if before_cutover y m d then 0
                          else 2 - jd_yearp y m div 100 + jd_yearp y m div 400)"
    unfolding bc using yp yp100 by (simp add: jd_B_def Let_def trunc_div100 trunc_div4 div100_4)
  have C: "jd_C y m = 365 * jd_yearp y m + jd_yearp y m div 4"
    unfolding jd_C_def Let_def using yp trunc_36525 [of "jd_yearp y m"] by (simp del: of_int_mult)
  have D: "jd_D m = (306001 * (jd_monthp m + 1)) div 10000"
    unfolding jd_D_def using mp trunc_306001 [of "jd_monthp m + 1"] by (simp del: of_int_add)
  have "jd_B y m d + jd_C y m + jd_D m + d = jd_int (y, m, d)"
    unfolding B C D jd_int_def jdn_def leap_count_def greg_corr_def by simp
  then show ?thesis
    unfolding date_to_jd_def by simp
qed

lemma century_step:
  "(x::int) div 100 - x div 400 = (x - 1) div 100 - (x - 1) div 400
      + (if x mod 100 = 0 \<and> x mod 400 \<noteq> 0 then 1 else 0)"
proof -
  have a: "x div 100 = (x - 1) div 100 + (if x mod 100 = 0 then 1 else 0)"
    by (rule div_step) simp
  have b: "x div 400 = (x - 1) div 400 + (if x mod 400 = 0 then 1 else 0)"
    by (rule div_step) simp
  show ?thesis
  proof (cases "x mod 400 = 0")
    case True
    then have "x mod 100 = 0" by (rule mod400_100)
    with True a b show ?thesis by simp
  next
    case False
    with a b show ?thesis by simp
  qed
qed

lemma greg_corr_pred: "greg_corr x \<le> greg_corr (x - 1)"
  using century_step [of x] by (simp add: greg_corr_def split: if_splits)

lemma greg_corr_antimono_nat: "greg_corr (x + int k) \<le> greg_corr x"
proof (induction k)
  case 0
  then show ?case by simp
next
  case (Suc k)
  have "greg_corr (x + int (Suc k)) \<le> greg_corr (x + int k)"
    using greg_corr_pred [of "x + int (Suc k)"] by simp
  with Suc show ?case by simp
qed

lemma greg_corr_antimono: "x \<le> x' \<Longrightarrow> greg_corr x' \<le> greg_corr x"
  using greg_corr_antimono_nat [of x "nat (x' - x)"] by simp

lemma valid_date_month:
  "valid_date (y, m, d) \<Longrightarrow>
   m = 1 \<or> m = 2 \<or> m = 3 \<or> m = 4 \<or> m = 5 \<or> m = 6 \<or> m = 7 \<or> m = 8 \<or> m = 9 \<or> m = 10 \<or> m = 11 \<or> m = 12"
  unfolding valid_date_def by (simp, arith)

lemma jdn_next_day:
  assumes "valid_date (y, m, d)"
  shows "jdn_of (next_day (y, m, d)) = jdn y m d + 1"
proof (cases "d < days_in_month y m")
  case True
  then show ?thesis by (simp add: jdn_def jdn_of_def)
next
  case False
  with assms have d: "d = days_in_month y m" by (simp add: valid_date_def)
  have nd: "next_day (y, m, d) = (if m < 12 then (y, m + 1, 1) else (y + 1, 1, 1))"
    using False by simp
  from valid_date_month [OF assms] show ?thesis
  proof (elim disjE)
    assume m2: "m = 2"
    show ?thesis
      unfolding nd d m2 using leap_step [of y]
      by (simp add: jdn_def jdn_of_def jd_yearp_def jd_monthp_def days_in_month_def)
  qed (simp_all add: nd d jdn_def jdn_of_def jd_yearp_def jd_monthp_def days_in_month_def)
qed

lemma valid_next_day: "valid_date dt \<Longrightarrow> valid_date (next_day dt)"
  by (cases dt) (auto simp: valid_date_def days_in_month_def)

lemma year_next_day: "fst dt \<le> fst (next_day dt)"
  by (cases dt) auto

lemma next_day_funpow:
  "valid_date dt \<Longrightarrow>
   valid_date ((next_day ^^ n) dt) \<and> jdn_of ((next_day ^^ n) dt) = jdn_of dt + int n
     \<and> fst dt \<le> fst ((next_day ^^ n) dt)"
proof (induction n)
  case 0
  then show ?case by simp
next
  case (Suc n)
  obtain y m d where e: "(next_day ^^ n) dt = (y, m, d)" by (cases "(next_day ^^ n) dt")
  from Suc e have v: "valid_date (y, m, d)" and j: "jdn y m d = jdn_of dt + int n"
    and f: "fst dt \<le> y" by (simp_all add: jdn_of_def)
  have "valid_date (next_day (y, m, d))" using v by (rule valid_next_day)
  moreover have "jdn_of (next_day (y, m, d)) = jdn_of dt + int (Suc n)"
    using jdn_next_day [OF v] j by simp
  moreover have "fst dt \<le> fst (next_day (y, m, d))"
    using f year_next_day [of "(y, m, d)"] by simp
  ultimately show ?case by (simp add: e)
qed

lemma leap_count_pred: "leap_count (y - 1) \<le> leap_count y"
  using leap_step [of y] by (simp split: if_splits)

lemma leap_count_mono_nat: "leap_count y \<le> leap_count (y + int k)"
proof (induction k)
  case 0
  then show ?case by simp
next
  case (Suc k)
  have "leap_count (y + int k) \<le> leap_count (y + int (Suc k))"
    using leap_count_pred [of "y + int (Suc k)"] by simp
  with Suc show ?case by simp
qed

lemma leap_count_mono: "y \<le> y' \<Longrightarrow> leap_count y \<le> leap_count y'"
  using leap_count_mono_nat [of y "nat (y' - y)"] by simp

lemma jdn_first_of_year:
  assumes "valid_date (y, m, d)"
  shows "jdn y 1 1 \<le> jdn y m d"
proof -
  from assms have d: "1 \<le> d" by (simp add: valid_date_def)
  from valid_date_month [OF assms] show ?thesis
  proof (elim disjE)
    assume "m = 1"
    then show ?thesis using d by (simp add: jdn_def jd_yearp_def jd_monthp_def)
  next
    assume "m = 2"
    then show ?thesis using d by (simp add: jdn_def jd_yearp_def jd_monthp_def)
  qed (use d leap_count_pred [of y] in \<open>simp_all add: jdn_def jd_yearp_def jd_monthp_def\<close>)
qed

lemma jdn_year_gap:
  assumes "y \<le> y'"
  shows "365 * (y' - y) \<le> jdn y' 1 1 - jdn y 1 1"
  using leap_count_mono [of "y - 1" "y' - 1"] assms
  by (simp add: jdn_def jd_yearp_def jd_monthp_def)

lemma year_after_days:
  assumes "valid_date (y', m, d)" "y \<le> y'" "jdn y' m d = jdn y 1 1 + k"
  shows "365 * (y' - y) \<le> k"
  using jdn_first_of_year [OF assms(1)] jdn_year_gap [OF assms(2)] assms(3) by simp

lemma valid_jan1: "valid_date (y, 1, 1)"
  by (simp add: valid_date_def days_in_month_def)

lemma date_of_doy_ok:
  assumes "1 \<le> y" "y \<le> 9997" "1 \<le> d" "d \<le> 999"
  shows "\<exists>dt. date_of_doy y d = Inr dt \<and> valid_date dt \<and> y \<le> fst dt
           \<and> jdn_of dt = jdn y 1 1 + d - 1"
proof -
  define dt where "dt = (next_day ^^ nat (d - 1)) (y, 1, 1)"
  obtain y' m' d' where e: "dt = (y', m', d')" by (cases dt)
  from next_day_funpow [OF valid_jan1, of "nat (d - 1)" y] assms
  have v: "valid_date dt" and j: "jdn_of dt = jdn y 1 1 + d - 1" and f: "y \<le> fst dt"
    by (simp_all add: dt_def jdn_of_def)
  from year_after_days [of y' m' d' y "d - 1"] v j f e
  have "365 * (y' - y) \<le> d - 1" by (simp add: jdn_of_def)
  with assms have "y' \<le> 9999" by simp
  moreover have "add_days (d - 1) (y, 1, 1) = dt" using assms by (simp add: add_days_def dt_def)
  ultimately have "date_of_doy y d = Inr dt"
    using assms f e by (simp add: date_of_doy_def Let_def)
  with v j f show ?thesis by blast
qed

lemma date_of_doy_jdn:
  assumes "date_of_doy y d = Inr dt" "1 \<le> d"
  shows "valid_date dt \<and> y \<le> fst dt \<and> jdn_of dt = jdn y 1 1 + d - 1"
proof -
  from assms have dt: "dt = (next_day ^^ nat (d - 1)) (y, 1, 1)"
    by (simp add: date_of_doy_def Let_def add_days_def split: if_splits)
  from next_day_funpow [OF valid_jan1, of "nat (d - 1)" y] assms(2)
  show ?thesis by (simp add: dt jdn_of_def)
qed


lemma jdn_cutover: "jdn 1582 10 15 = 578166"
  by (simp add: jdn_def jd_yearp_def jd_monthp_def leap_count_def)

lemma leap_count_1581: "leap_count 1581 = 383" "leap_count 1582 = 383"
  by (simp_all add: leap_count_def)

lemma valid_date_day: "valid_date (y, m, d) \<Longrightarrow> 1 \<le> d \<and> d \<le> 31"
  by (auto simp: valid_date_def days_in_month_def split: if_splits)

lemma before_cutover_jdn:
  assumes "valid_date (y, m, d)"
  shows "before_cutover y m d \<longleftrightarrow> jdn y m d < 578166"
proof -
  from valid_date_day [OF assms] have d: "1 \<le> d" "d \<le> 31" by simp_all
  note mo = valid_date_month [OF assms]
  consider "y \<le> 1581" | "y = 1582" | "1583 \<le> y" by linarith
  then show ?thesis
  proof cases
    case 1
    have l: "leap_count y \<le> 383" "leap_count (y - 1) \<le> 383"
      using leap_count_mono [of y 1581] leap_count_mono [of "y - 1" 1581] 1
      by (simp_all add: leap_count_1581)
    have "jdn y m d < 578166"
      using mo
      by (elim disjE) (use 1 d l in \<open>simp_all add: jdn_def jd_yearp_def jd_monthp_def\<close>)
    moreover have "before_cutover y m d" using 1 by (simp add: before_cutover_def)
    ultimately show ?thesis by simp
  next
    case 2
    show ?thesis
      using mo
      by (elim disjE)
        (use 2 d in \<open>auto simp: before_cutover_def jdn_def jd_yearp_def jd_monthp_def
            leap_count_1581\<close>)
  next
    case 3
    have l: "383 \<le> leap_count y" "383 \<le> leap_count (y - 1)"
      using leap_count_mono [of 1582 y] leap_count_mono [of 1582 "y - 1"] 3
      by (simp_all add: leap_count_1581)
    have "\<not> jdn y m d < 578166"
      using mo
      by (elim disjE) (use 3 d l in \<open>simp_all add: jdn_def jd_yearp_def jd_monthp_def\<close>)
    moreover have "\<not> before_cutover y m d" using 3 by (simp add: before_cutover_def)
    ultimately show ?thesis by simp
  qed
qed

lemma yearp_next_day: "valid_date dt \<Longrightarrow> yearp_of dt \<le> yearp_of (next_day dt)"
  by (cases dt) (auto simp: yearp_of_def jd_yearp_def valid_date_def)

lemma yearp_funpow: "valid_date dt \<Longrightarrow> yearp_of dt \<le> yearp_of ((next_day ^^ n) dt)"
proof (induction n)
  case 0
  then show ?case by simp
next
  case (Suc n)
  have "valid_date ((next_day ^^ n) dt)" using next_day_funpow [OF Suc.prems] by simp
  from yearp_next_day [OF this] Suc show ?case by simp
qed

lemma cutover_doy_from_1583: "1583 \<le> y \<Longrightarrow> cutover_doy y < 1"
proof -
  assume "1583 \<le> y"
  from jdn_year_gap [OF this] have "jdn 1583 1 1 \<le> jdn y 1 1" using \<open>1583 \<le> y\<close> by simp
  moreover have "jdn 1583 1 1 = 578244"
    by (simp add: jdn_def jd_yearp_def jd_monthp_def leap_count_def)
  ultimately show ?thesis by (simp add: cutover_doy_def jdn_cutover)
qed

section \<open>Formatting and parsing of decimal fields\<close>

lemma digit_char_code: "d < 10 \<Longrightarrow> (of_char (char_of (48 + d :: nat)) :: nat) = 48 + d"
  by simp

lemma is_digit_char: "d < 10 \<Longrightarrow> is_digit (char_of (48 + d :: nat))"
  by (simp add: is_digit_def)

lemma not_space_digit: "is_digit c \<Longrightarrow> \<not> is_space c"
  by (auto simp: is_digit_def is_space_def)

lemma digit_not_sign: "is_digit c \<Longrightarrow> c \<noteq> CHR ''-'' \<and> c \<noteq> CHR ''+''"
  by (auto simp: is_digit_def)

lemma digits_val_snoc: "digits_val (s @ [c]) = 10 * digits_val s + ((of_char c :: nat) - 48)"
  by (simp add: digits_val_def)

lemma dec_digits_props:
  "list_all is_digit (dec_digits n) \<and> dec_digits n \<noteq> [] \<and> digits_val (dec_digits n) = n"
proof (induction n rule: dec_digits.induct)
  case (1 n)
  show ?case
  proof (cases "n < 10")
    case True
    then show ?thesis
      by (subst (1 2 3) dec_digits.simps) (simp add: is_digit_char digits_val_def)
  next
    case False
    have md: "n mod 10 < 10" by simp
    from False 1 have ih: "list_all is_digit (dec_digits (n div 10))"
      "digits_val (dec_digits (n div 10)) = n div 10" by simp_all
    show ?thesis
      using False ih md
      by (subst (1 2 3) dec_digits.simps) (simp add: is_digit_char digits_val_snoc)
  qed
qed

lemma length_dec_digits: "n < 10 ^ k \<Longrightarrow> 0 < k \<Longrightarrow> length (dec_digits n) \<le> k"
proof (induction n arbitrary: k rule: dec_digits.induct)
  case (1 n)
  show ?case
  proof (cases "n < 10")
    case True
    then show ?thesis using 1(3) by (subst dec_digits.simps) simp
  next
    case False
    then obtain j where k: "k = Suc j" using 1(3) by (cases k) auto
    with 1(2) False have j: "0 < j" by (cases j) auto
    from 1(2) k have "n div 10 < 10 ^ j" by (simp add: less_mult_imp_div_less mult.commute)
    with 1(1) [OF False this j] show ?thesis
      using False k by (subst dec_digits.simps) simp
  qed
qed

lemma digits_val_zeros: "digits_val (replicate k (CHR ''0'') @ s) = digits_val s"
  by (induction k) (simp_all add: digits_val_def)

lemma is_digit_zero: "is_digit (CHR ''0'')"
  by (simp add: is_digit_def)

lemma strip_digits: "all_digits s \<Longrightarrow> strip s = s"
proof -
  assume a: "all_digits s"
  then have ne: "s \<noteq> []" and all: "\<forall>c \<in> set s. is_digit c"
    by (simp_all add: all_digits_def list_all_iff)
  from ne all have "\<not> is_space (hd s)" by (simp add: not_space_digit)
  with ne have d1: "dropWhile is_space s = s" by (cases s) auto
  from ne all have "\<not> is_space (last s)" by (simp add: not_space_digit)
  with ne have d2: "dropWhile is_space (rev s) = rev s" by (cases "rev s") (auto simp: hd_rev)
  show ?thesis by (simp add: strip_def d1 d2)
qed

lemma int_of_str_digits: "all_digits s \<Longrightarrow> int_of_str s = Inr (int (digits_val s))"
proof -
  assume a: "all_digits s"
  then obtain c r where s: "s = c # r" by (cases s) (auto simp: all_digits_def)
  with a have "is_digit c" by (simp add: all_digits_def)
  then have "c \<noteq> CHR ''-''" "c \<noteq> CHR ''+''" using digit_not_sign by auto
  then show ?thesis using a s by (simp add: int_of_str_def strip_digits)
qed

lemma fmt_d_nonneg:
  "0 \<le> n \<Longrightarrow> fmt_d w n = replicate (w - length (dec_digits (nat n))) (CHR ''0'') @ dec_digits (nat n)"
  by (simp add: fmt_d_def Let_def)

lemma all_digits_fmt_d: "0 \<le> n \<Longrightarrow> all_digits (fmt_d w n)"
  using dec_digits_props [of "nat n"]
  by (auto simp: fmt_d_nonneg all_digits_def is_digit_zero list_all_iff)

lemma int_of_str_fmt_d: "0 \<le> n \<Longrightarrow> int_of_str (fmt_d w n) = Inr n"
  using dec_digits_props [of "nat n"]
  by (simp add: int_of_str_digits all_digits_fmt_d) (simp add: fmt_d_nonneg digits_val_zeros)

lemma length_fmt_d: "0 \<le> n \<Longrightarrow> n < 10 ^ w \<Longrightarrow> 0 < w \<Longrightarrow> length (fmt_d w n) = w"
proof -
  assume n: "0 \<le> n" "n < 10 ^ w" and w: "0 < w"
  then have "nat n < 10 ^ w" by (simp add: nat_less_iff)
  from length_dec_digits [OF this w] show ?thesis using n by (simp add: fmt_d_nonneg)
qed


lemma vexfmt_slices:
  assumes "0 \<le> y" "y < 10000" "0 \<le> d" "d < 1000" "0 \<le> h" "h < 100"
    "0 \<le> m" "m < 100" "0 \<le> s" "s < 100"
  shows "slice 0 4 (vexfmt y d h m s) = fmt_d 4 y"
    and "slice 5 8 (vexfmt y d h m s) = fmt_d 3 d"
    and "slice 9 11 (vexfmt y d h m s) = fmt_d 2 h"
    and "slice 12 14 (vexfmt y d h m s) = fmt_d 2 m"
    and "slice 15 17 (vexfmt y d h m s) = fmt_d 2 s"
proof -
  have ly: "length (fmt_d 4 y) = 4" using assms by (intro length_fmt_d) simp_all
  have ld: "length (fmt_d 3 d) = 3" using assms by (intro length_fmt_d) simp_all
  have lh: "length (fmt_d 2 h) = 2" using assms by (intro length_fmt_d) simp_all
  have lm: "length (fmt_d 2 m) = 2" using assms by (intro length_fmt_d) simp_all
  have ls: "length (fmt_d 2 s) = 2" using assms by (intro length_fmt_d) simp_all
  show "slice 0 4 (vexfmt y d h m s) = fmt_d 4 y"
    by (simp add: slice_def vexfmt_def ly)
  show "slice 5 8 (vexfmt y d h m s) = fmt_d 3 d"
    by (simp add: slice_def vexfmt_def ly ld)
  show "slice 9 11 (vexfmt y d h m s) = fmt_d 2 h"
    by (simp add: slice_def vexfmt_def ly ld lh)
  show "slice 12 14 (vexfmt y d h m s) = fmt_d 2 m"
    by (simp add: slice_def vexfmt_def ly ld lh lm)
  show "slice 15 17 (vexfmt y d h m s) = fmt_d 2 s"
    by (simp add: slice_def vexfmt_def ly ld lh lm ls)
qed


section \<open>The Modified Julian Date of a split date\<close>

lemma dateVEX2split_Inr:
  assumes "dateVEX2split v = Inr t"
  shows "\<exists>dt. date_of_doy (yr t) (doy t) = Inr dt \<and>
          mjd t = date_to_jd (fst dt) (fst (snd dt)) (snd (snd dt)) + 0.5 - 2400000.5
                  + (real_of_int (hh t) - 12 + real_of_int (mm t) / 60 + real_of_int (ss t) / 3600) / 24"
    and "vex t = v"
    and "int_of_str (slice 0 4 v) = Inr (yr t)"
    and "int_of_str (slice 5 8 v) = Inr (doy t)"
    and "int_of_str (slice 9 11 v) = Inr (hh t)"
    and "int_of_str (slice 12 14 v) = Inr (mm t)"
    and "int_of_str (slice 15 17 v) = Inr (ss t)"
  using assms
  by (auto simp: dateVEX2split_def ebind_def Let_def split: sum.splits)

lemma earlier_secs:
  assumes "earlier a b" "valid_hms a" "valid_hms b"
  shows "secs_of a < secs_of b"
  using assms unfolding earlier_def valid_hms_def secs_of_def by arith


lemma date_of_doy_Inr:
  assumes "date_of_doy y d = Inr dt" "1 \<le> d"
  shows "dt = (next_day ^^ nat (d - 1)) (y, 1, 1)" "1 \<le> y"
  using assms by (simp_all add: date_of_doy_def Let_def add_days_def split: if_splits)

lemma mjd_general:
  assumes "dateVEX2split v = Inr t" "1 \<le> doy t"
  shows "\<exists>dt. dt = (next_day ^^ nat (doy t - 1)) (yr t, 1, 1) \<and> valid_date dt \<and>
           jdn_of dt = jdn (yr t) 1 1 + doy t - 1 \<and>
           mjd t = real_of_int (jd_int dt) - 679005.5
                   + (real_of_int (hh t) - 12 + real_of_int (mm t) / 60
                      + real_of_int (ss t) / 3600) / 24"
proof -
  from dateVEX2split_Inr(1) [OF assms(1)] obtain dt where
    dt: "date_of_doy (yr t) (doy t) = Inr dt" and
    m: "mjd t = date_to_jd (fst dt) (fst (snd dt)) (snd (snd dt)) + 0.5 - 2400000.5
                  + (real_of_int (hh t) - 12 + real_of_int (mm t) / 60 + real_of_int (ss t) / 3600) / 24"
    by blast
  obtain y' m' d' where e: "dt = (y', m', d')" by (cases dt)
  from date_of_doy_jdn [OF dt assms(2)] e
  have v: "valid_date (y', m', d')" and y: "yr t \<le> y'"
    and j: "jdn_of dt = jdn (yr t) 1 1 + doy t - 1"
    by simp_all
  from date_of_doy_Inr [OF dt assms(2)]
  have f: "dt = (next_day ^^ nat (doy t - 1)) (yr t, 1, 1)" and y1: "1 \<le> yr t" by simp_all
  from v have "1 \<le> m'" by (simp add: valid_date_def)
  with y y1 have "date_to_jd y' m' d' = real_of_int (jd_int (y', m', d')) + 1720994.5"
    by (intro date_to_jd_int) simp_all
  with m e have "mjd t = real_of_int (jd_int dt) - 679005.5
                   + (real_of_int (hh t) - 12 + real_of_int (mm t) / 60
                      + real_of_int (ss t) / 3600) / 24"
    by simp
  with f v e j show ?thesis by simp
qed

lemma before_cutover_doy:
  assumes "valid_date dt" "jdn_of dt = jdn y 1 1 + d - 1"
  shows "(case dt of (y', m', d') \<Rightarrow> before_cutover y' m' d') \<longleftrightarrow> d < cutover_doy y"
proof -
  obtain y' m' d' where e: "dt = (y', m', d')" by (cases dt)
  from assms e have v: "valid_date (y', m', d')" and j: "jdn y' m' d' = jdn y 1 1 + d - 1"
    by (simp_all add: jdn_of_def)
  have "(jdn y' m' d' < 578166) = (d < cutover_doy y)"
    unfolding j cutover_doy_def jdn_cutover by linarith
  with before_cutover_jdn [OF v] show ?thesis by (simp add: e)
qed

lemma jd_int_gap:
  assumes va: "valid_date da" and ja: "jdn_of da = jdn y 1 1 + p - 1"
    and vb: "valid_date db" and jb: "jdn_of db = jdn y 1 1 + q - 1"
    and yp: "yearp_of da \<le> yearp_of db"
    and pq: "p \<le> q"
    and side: "\<not> (p < cutover_doy y \<and> cutover_doy y \<le> q)"
  shows "q - p \<le> jd_int db - jd_int da"
proof -
  obtain ya ma ea where a: "da = (ya, ma, ea)" by (cases da)
  obtain yb mb eb where b: "db = (yb, mb, eb)" by (cases db)
  have ba: "before_cutover ya ma ea \<longleftrightarrow> p < cutover_doy y"
    using before_cutover_doy [OF va ja] a by simp
  have bb: "before_cutover yb mb eb \<longleftrightarrow> q < cutover_doy y"
    using before_cutover_doy [OF vb jb] b by simp
  have g: "greg_corr (jd_yearp yb mb) \<le> greg_corr (jd_yearp ya ma)"
    using yp a b by (intro greg_corr_antimono) (simp add: yearp_of_def)
  have j: "jdn yb mb eb - jdn ya ma ea = q - p"
    using ja jb a b by (simp add: jdn_of_def)
  show ?thesis
  proof (cases "p < cutover_doy y")
    case True
    with side pq have "q < cutover_doy y" by simp
    with True ba bb g j show ?thesis by (simp add: a b jd_int_def)
  next
    case False
    with pq have "\<not> q < cutover_doy y" by simp
    with False ba bb j show ?thesis by (simp add: a b jd_int_def)
  qed
qed

section \<open>Evaluation of formatting and parsing on literals\<close>

lemma char_tab:
  "char_of (48::nat) = CHR ''0''" "char_of (49::nat) = CHR ''1''" "char_of (50::nat) = CHR ''2''"
  "char_of (51::nat) = CHR ''3''" "char_of (52::nat) = CHR ''4''" "char_of (53::nat) = CHR ''5''"
  "char_of (54::nat) = CHR ''6''" "char_of (55::nat) = CHR ''7''" "char_of (56::nat) = CHR ''8''"
  "char_of (57::nat) = CHR ''9''"
  by code_simp+

lemma replicate_tab: "replicate 1 x = [x]" "replicate 2 x = [x, x]" "replicate 3 x = [x, x, x]"
  by (simp_all add: numeral_eq_Suc)

lemmas fmt_eval = vexfmt_def fmt_d_def Let_def dec_digits.simps char_tab replicate_tab

lemmas parse_eval = slice_def int_of_str_def strip_def is_space_def all_digits_def is_digit_def
  digits_val_def

lemma py_trunc_of_int: "py_trunc (real_of_int n) = n"
  by (simp add: py_trunc_def)

lemma dateSec2VEX_int:
  assumes "0 \<le> n"
  shows "dateSec2VEX (real_of_int n) (PInt y) =
           (let d = n div 86400; r1 = n - d * 86400;
                h = r1 div 3600; r2 = r1 - h * 3600;
                m = r2 div 60; s = r2 - m * 60
            in Inr (vexfmt y d h m s))"
proof -
  define d where "d = n div 86400"
  define r1 where "r1 = n - d * 86400"
  define h where "h = r1 div 3600"
  define r2 where "r2 = r1 - h * 3600"
  define m where "m = r2 div 60"
  define s where "s = r2 - m * 60"
  have r1: "r1 = n mod 86400" unfolding r1_def d_def by (simp add: minus_div_mult_eq_mod)
  then have r1_nn: "0 \<le> r1" by simp
  have r2: "r2 = r1 mod 3600" unfolding r2_def h_def by (simp add: minus_div_mult_eq_mod)
  then have r2_nn: "0 \<le> r2" by simp
  have e1: "py_trunc (real_of_int n / 86400) = d"
    unfolding d_def using py_trunc_div_int [of n 86400] assms by simp
  have e2: "py_trunc (real_of_int r1 / 3600) = h"
    unfolding h_def using py_trunc_div_int [of r1 3600] r1_nn by simp
  have e3: "py_trunc (real_of_int r2 / 60) = m"
    unfolding m_def using py_trunc_div_int [of r2 60] r2_nn by simp
  have a1: "real_of_int n - real_of_int d * 86400 = real_of_int r1"
    unfolding r1_def by simp
  have a2: "real_of_int r1 - real_of_int h * 3600 = real_of_int r2"
    unfolding r2_def by simp
  have a3: "real_of_int r2 - real_of_int m * 60 = real_of_int s"
    unfolding s_def by simp
  have "dateSec2VEX (real_of_int n) (PInt y) = Inr (vexfmt y d h m s)"
    unfolding dateSec2VEX_def Let_def e1 a1 e2 a2 e3 a3 py_trunc_of_int
    by (simp add: ebind_def)
  then show ?thesis
    unfolding Let_def d_def [symmetric] r1_def [symmetric] h_def [symmetric]
      r2_def [symmetric] m_def [symmetric] s_def [symmetric] .
qed

section \<open>C2: \<open>dateSec2VEX\<close> has no input validation\<close>

text \<open>
  With \<open>-1\<close> seconds, and with year \<open>0\<close>, \<open>dateSec2VEX\<close> raises nothing and
  returns a date string; the negative second shows in the last field.
\<close>

theorem dateSec2VEX_accepts_negative_and_year_zero:
  "dateSec2VEX (- 1) (PInt 2015) = Inr ''2015y000d00h00m-1s'' \<and>
   dateSec2VEX 0 (PInt 0) = Inr ''0000y000d00h00m00s''"
proof -
  have a: "py_trunc (- (1 / 86400)) = 0" "py_trunc (- (1 / 3600)) = 0" "py_trunc (- (1 / 60)) = 0"
    "py_trunc (- 1) = - 1" "py_trunc 0 = 0"
    by (simp_all add: py_trunc_def ceiling_eq_iff)
  have f1: "vexfmt 2015 0 0 0 (- 1) = ''2015y000d00h00m-1s''" by (simp add: fmt_eval)
  have f2: "vexfmt 0 0 0 0 0 = ''0000y000d00h00m00s''" by (simp add: fmt_eval)
  have "dateSec2VEX (- 1) (PInt 2015) = Inr (vexfmt 2015 0 0 0 (- 1))"
    unfolding dateSec2VEX_def Let_def by (simp add: a ebind_def)
  moreover have "dateSec2VEX 0 (PInt 0) = Inr (vexfmt 0 0 0 0 0)"
    unfolding dateSec2VEX_def Let_def by (simp add: a ebind_def)
  ultimately show ?thesis by (simp only: f1 f2)
qed

text \<open>
  C2 (amended): \<open>dateSec2VEX\<close> checks neither argument. For every seconds value and
  every integer year it returns a string, and for a non-negative whole number of seconds
  the fields are obtained by integer division by 86400, then 3600, then 60, each step
  truncating and passing on the remainder.
\<close>

theorem dateSec2VEX_no_validation:
  "(\<exists>v. dateSec2VEX sec (PInt y) = Inr v) \<and>
   (0 \<le> n \<longrightarrow>
      dateSec2VEX (real_of_int n) (PInt y) =
        (let d = n div 86400; r1 = n - d * 86400;
             h = r1 div 3600; r2 = r1 - h * 3600;
             m = r2 div 60; s = r2 - m * 60
         in Inr (vexfmt y d h m s)))"
proof
  show "\<exists>v. dateSec2VEX sec (PInt y) = Inr v"
    by (simp add: dateSec2VEX_def Let_def ebind_def)
  show "0 \<le> n \<longrightarrow>
      dateSec2VEX (real_of_int n) (PInt y) =
        (let d = n div 86400; r1 = n - d * 86400;
             h = r1 div 3600; r2 = r1 - h * 3600;
             m = r2 div 60; s = r2 - m * 60
         in Inr (vexfmt y d h m s))"
    using dateSec2VEX_int by blast
qed

theorem dateSec2VEX_no_validation_witness:
  "(0::int) \<le> 22676700 \<and> dateSec2VEX 22676700 (PInt 2015) = Inr ''2015y262d11h05m00s''"
proof -
  have f: "vexfmt 2015 262 11 5 0 = ''2015y262d11h05m00s''" by (simp add: fmt_eval)
  have "dateSec2VEX (real_of_int 22676700) (PInt 2015) = Inr (vexfmt 2015 262 11 5 0)"
    using dateSec2VEX_no_validation [of "real_of_int 22676700" 2015 22676700]
    by (simp add: Let_def)
  then show ?thesis by (simp add: f)
qed

section \<open>C6: the Gregorian cutover of \<open>date_to_jd\<close>\<close>

text \<open>
  C6: for a date before 1582-10-15 the correction term \<open>B\<close> of \<open>date_to_jd\<close> is 0;
  for a date on or after it, \<open>B = 2 - A + trunc(A / 4)\<close> with
  \<open>A = trunc(yearp / 100)\<close>. So the Julian Dates of 1582-10-04 and 1582-10-15
  differ by exactly 1.
\<close>

theorem gregorian_cutover:
  "(before_cutover y m d \<longrightarrow> jd_B y m d = 0) \<and>
   (\<not> before_cutover y m d \<longrightarrow>
      jd_B y m d = 2 - py_trunc (real_of_int (jd_yearp y m) / 100)
                     + py_trunc (real_of_int (py_trunc (real_of_int (jd_yearp y m) / 100)) / 4)) \<and>
   date_to_jd 1582 10 15 - date_to_jd 1582 10 4 = 1"
proof (intro conjI impI)
  assume "before_cutover y m d"
  then show "jd_B y m d = 0" by (auto simp: before_cutover_def jd_B_def)
next
  assume "\<not> before_cutover y m d"
  then have "\<not> (y < 1582 \<or> (y = 1582 \<and> m < 10) \<or> (y = 1582 \<and> m = 10 \<and> d < 15))"
    by (auto simp: before_cutover_def)
  then show "jd_B y m d = 2 - py_trunc (real_of_int (jd_yearp y m) / 100)
                     + py_trunc (real_of_int (py_trunc (real_of_int (jd_yearp y m) / 100)) / 4)"
    unfolding jd_B_def Let_def by (simp only: if_False)
next
  have a: "date_to_jd 1582 10 15 = 2299160.5"
    by (simp add: date_to_jd_def jd_B_def jd_C_def jd_D_def jd_yearp_def jd_monthp_def
        py_trunc_def Let_def)
  have b: "date_to_jd 1582 10 4 = 2299159.5"
    by (simp add: date_to_jd_def jd_B_def jd_C_def jd_D_def jd_yearp_def jd_monthp_def
        py_trunc_def Let_def)
  show "date_to_jd 1582 10 15 - date_to_jd 1582 10 4 = 1"
    unfolding a b by simp
qed

theorem gregorian_cutover_witness:
  "before_cutover 1582 10 4 \<and> jd_B 1582 10 4 = 0 \<and>
   \<not> before_cutover 1582 10 15 \<and> jd_B 1582 10 15 = - 10 \<and>
   date_to_jd 1582 10 15 - date_to_jd 1582 10 4 = 1"
proof -
  have b1: "before_cutover 1582 10 4" by (simp add: before_cutover_def)
  have b2: "\<not> before_cutover 1582 10 15" by (simp add: before_cutover_def)
  have t: "py_trunc (real_of_int (jd_yearp 1582 10) / 100) = 15"
    by (simp add: jd_yearp_def py_trunc_def)
  have t4: "py_trunc (real_of_int 15 / 4) = 3"
    by (simp add: py_trunc_def)
  from gregorian_cutover [of 1582 10 4] b1 have "jd_B 1582 10 4 = 0" by blast
  moreover from gregorian_cutover [of 1582 10 15] b2
  have "jd_B 1582 10 15 = 2 - py_trunc (real_of_int (jd_yearp 1582 10) / 100)
      + py_trunc (real_of_int (py_trunc (real_of_int (jd_yearp 1582 10) / 100)) / 4)"
    by blast
  then have "jd_B 1582 10 15 = - 10" unfolding t t4 by simp
  moreover from gregorian_cutover [of 1582 10 4]
  have "date_to_jd 1582 10 15 - date_to_jd 1582 10 4 = 1" by blast
  ultimately show ?thesis using b1 b2 by blast
qed

section \<open>C8: the order of Modified Julian Dates\<close>

lemma split_1582_287:
  "dateVEX2split ''1582y287d00h00m00s'' =
     Inr \<lparr>vex = ''1582y287d00h00m00s'', yr = 1582, doy = 287, hh = 0, mm = 0, ss = 0,
          mon = 10, mday = 14, mjd = - 100831\<rparr>"
  by code_simp

lemma split_1582_288:
  "dateVEX2split ''1582y288d00h00m00s'' =
     Inr \<lparr>vex = ''1582y288d00h00m00s'', yr = 1582, doy = 288, hh = 0, mm = 0, ss = 0,
          mon = 10, mday = 15, mjd = - 100840\<rparr>"
  by code_simp

text \<open>
  In 1582 the order fails: day 287 (14 October, still on the Julian branch) has a larger
  MJD than day 288 (15 October, the first day of the Gregorian branch).
\<close>

theorem mjd_order_fails_in_1582:
  "\<exists>a b. dateVEX2split ''1582y287d00h00m00s'' = Inr a \<and>
         dateVEX2split ''1582y288d00h00m00s'' = Inr b \<and>
         yr a = yr b \<and> valid_hms a \<and> valid_hms b \<and> earlier a b \<and> mjd b < mjd a"
  unfolding split_1582_287 split_1582_288
  by (simp add: valid_hms_def earlier_def)

text \<open>
  C8 (amended): take two VEX dates of the same year that \<open>dateVEX2split\<close> converts,
  with day of year at least 1, hour 0-23, minute 0-59 and second 0-59, the first earlier
  than the second, field by field. Unless 15 October 1582 separates their days (the
  first before it, the second on or after it), the MJD of the first is strictly
  smaller. From 1583 on no two days are separated, as \<open>cutover_doy\<close> is below 1.
\<close>

theorem mjd_strictly_monotone_off_cutover:
  assumes "dateVEX2split va = Inr a" "dateVEX2split vb = Inr b"
    and "yr a = yr b"
    and "valid_hms a" "valid_hms b" "earlier a b"
    and "\<not> (doy a < cutover_doy (yr a) \<and> cutover_doy (yr a) \<le> doy b)"
  shows "mjd a < mjd b"
proof -
  from assms have da: "1 \<le> doy a" and db: "1 \<le> doy b" by (simp_all add: valid_hms_def)
  from assms(6) have le: "doy a \<le> doy b" by (auto simp: earlier_def)
  define y where "y = yr a"
  define A where "A = (next_day ^^ nat (doy a - 1)) (y, 1, 1)"
  define B where "B = (next_day ^^ nat (doy b - 1)) (y, 1, 1)"
  from mjd_general [OF assms(1) da]
  have vA: "valid_date A" and jA: "jdn_of A = jdn y 1 1 + doy a - 1"
    and mA: "mjd a = real_of_int (jd_int A) - 679005.5
                   + (real_of_int (hh a) - 12 + real_of_int (mm a) / 60
                      + real_of_int (ss a) / 3600) / 24"
    by (simp_all add: A_def y_def)
  from mjd_general [OF assms(2) db] assms(3)
  have vB: "valid_date B" and jB: "jdn_of B = jdn y 1 1 + doy b - 1"
    and mB: "mjd b = real_of_int (jd_int B) - 679005.5
                   + (real_of_int (hh b) - 12 + real_of_int (mm b) / 60
                      + real_of_int (ss b) / 3600) / 24"
    by (simp_all add: B_def y_def)
  have "nat (doy b - 1) = nat (doy b - doy a) + nat (doy a - 1)" using da le by simp
  then have "B = (next_day ^^ nat (doy b - doy a)) A"
    unfolding A_def B_def by (simp add: funpow_add)
  then have yp: "yearp_of A \<le> yearp_of B" using yearp_funpow [OF vA] by simp
  have side: "\<not> (doy a < cutover_doy y \<and> cutover_doy y \<le> doy b)"
    using assms(7) by (simp add: y_def)
  have gap: "doy b - doy a \<le> jd_int B - jd_int A"
    using vA jA vB jB yp le side by (rule jd_int_gap)
  have "secs_of a < secs_of b" using assms(6,4,5) by (rule earlier_secs)
  then have s: "real_of_int (secs_of a) < real_of_int (secs_of b)" by simp
  from gap have "real_of_int (doy b) - real_of_int (doy a)
                   \<le> real_of_int (jd_int B) - real_of_int (jd_int A)"
    by (metis of_int_diff of_int_le_iff)
  with s show ?thesis
    unfolding mA mB secs_of_def by (simp add: field_simps)
qed

lemma split_2015_a:
  "dateVEX2split ''2015y262d11h00m00s'' =
     Inr \<lparr>vex = ''2015y262d11h00m00s'', yr = 2015, doy = 262, hh = 11, mm = 0, ss = 0,
          mon = 9, mday = 19, mjd = 57284 + 11 / 24\<rparr>"
  by code_simp

lemma split_2015_b:
  "dateVEX2split ''2015y262d11h00m01s'' =
     Inr \<lparr>vex = ''2015y262d11h00m01s'', yr = 2015, doy = 262, hh = 11, mm = 0, ss = 1,
          mon = 9, mday = 19, mjd = 57284 + 11 / 24 + 1 / 86400\<rparr>"
  by code_simp

theorem mjd_strictly_monotone_off_cutover_witness:
  "\<exists>a b. dateVEX2split ''2015y262d11h00m00s'' = Inr a \<and>
         dateVEX2split ''2015y262d11h00m01s'' = Inr b \<and>
         yr a = yr b \<and> valid_hms a \<and> valid_hms b \<and> earlier a b \<and>
         \<not> (doy a < cutover_doy (yr a) \<and> cutover_doy (yr a) \<le> doy b) \<and>
         mjd a < mjd b"
proof -
  let ?a = "\<lparr>vex = ''2015y262d11h00m00s'', yr = 2015, doy = 262, hh = 11, mm = 0, ss = 0,
          mon = 9, mday = 19, mjd = 57284 + 11 / 24\<rparr>"
  let ?b = "\<lparr>vex = ''2015y262d11h00m01s'', yr = 2015, doy = 262, hh = 11, mm = 0, ss = 1,
          mon = 9, mday = 19, mjd = 57284 + 11 / 24 + 1 / 86400\<rparr>"
  have c: "cutover_doy 2015 < 1" by (rule cutover_doy_from_1583) simp
  have h: "yr ?a = yr ?b" "valid_hms ?a" "valid_hms ?b" "earlier ?a ?b"
    by (simp_all add: valid_hms_def earlier_def)
  have n: "\<not> (doy ?a < cutover_doy (yr ?a) \<and> cutover_doy (yr ?a) \<le> doy ?b)"
    using c by simp
  have "mjd ?a < mjd ?b"
    using split_2015_a split_2015_b h n by (rule mjd_strictly_monotone_off_cutover)
  with h n show ?thesis unfolding split_2015_a split_2015_b by blast
qed

section \<open>C7: seconds of year and back\<close>

lemma dateVEX2sec_fields:
  assumes "int_of_str (slice 5 8 v) = Inr d" "int_of_str (slice 9 11 v) = Inr h"
    "int_of_str (slice 12 14 v) = Inr m" "int_of_str (slice 15 17 v) = Inr s"
  shows "dateVEX2sec v = Inr (real_of_int (s + 60 * m + 3600 * h + 86400 * d))"
  using assms by (simp add: dateVEX2sec_def ebind_def)

lemma dateSec2VEX_year_str:
  assumes "int_of_str ystr = Inr y"
  shows "dateSec2VEX x (PStr ystr) = dateSec2VEX x (PInt y)"
  using assms by (simp add: dateSec2VEX_def Let_def ebind_def)

lemma dateVEXaddsec_fields:
  assumes "int_of_str (slice 0 4 v) = Inr y"
    "int_of_str (slice 5 8 v) = Inr d" "int_of_str (slice 9 11 v) = Inr h"
    "int_of_str (slice 12 14 v) = Inr m" "int_of_str (slice 15 17 v) = Inr s"
  shows "dateVEXaddsec v k =
           dateSec2VEX (real_of_int (s + 60 * m + 3600 * h + 86400 * d + k)) (PInt y)"
  using dateVEX2sec_fields [OF assms(2-5)] dateSec2VEX_year_str [OF assms(1)]
  by (simp add: dateVEXaddsec_def Let_def ebind_def)

lemma decompose_seconds:
  fixes d h m s :: int
  assumes "0 \<le> d" "0 \<le> h" "h \<le> 23" "0 \<le> m" "m \<le> 59" "0 \<le> s" "s \<le> 59"
  defines "n \<equiv> s + 60 * m + 3600 * h + 86400 * d"
  shows "0 \<le> n" "n div 86400 = d" "(n - d * 86400) div 3600 = h"
    "(n - d * 86400 - h * 3600) div 60 = m" "n - d * 86400 - h * 3600 - m * 60 = s"
proof -
  show "0 \<le> n" using assms by simp
  have "n = 86400 * d + (s + 60 * m + 3600 * h)" by (simp add: n_def)
  then show "n div 86400 = d"
    using assms by (intro int_div_pos_eq [of _ _ _ "s + 60 * m + 3600 * h"]) simp_all
  have "n - d * 86400 = 3600 * h + (s + 60 * m)" by (simp add: n_def)
  then show "(n - d * 86400) div 3600 = h"
    using assms by (intro int_div_pos_eq [of _ _ _ "s + 60 * m"]) simp_all
  have "n - d * 86400 - h * 3600 = 60 * m + s" by (simp add: n_def)
  then show "(n - d * 86400 - h * 3600) div 60 = m"
    using assms by (intro int_div_pos_eq [of _ _ _ s]) simp_all
  show "n - d * 86400 - h * 3600 - m * 60 = s" by (simp add: n_def)
qed

lemma vexfmt_parse:
  assumes "0 \<le> y" "y \<le> 9999" "0 \<le> d" "d \<le> 999" "0 \<le> h" "h \<le> 99"
    "0 \<le> m" "m \<le> 99" "0 \<le> s" "s \<le> 99"
  shows "int_of_str (slice 0 4 (vexfmt y d h m s)) = Inr y"
    and "int_of_str (slice 5 8 (vexfmt y d h m s)) = Inr d"
    and "int_of_str (slice 9 11 (vexfmt y d h m s)) = Inr h"
    and "int_of_str (slice 12 14 (vexfmt y d h m s)) = Inr m"
    and "int_of_str (slice 15 17 (vexfmt y d h m s)) = Inr s"
proof -
  have r: "0 \<le> y" "y < 10000" "0 \<le> d" "d < 1000" "0 \<le> h" "h < 100"
    "0 \<le> m" "m < 100" "0 \<le> s" "s < 100" using assms by simp_all
  show "int_of_str (slice 0 4 (vexfmt y d h m s)) = Inr y"
    unfolding vexfmt_slices(1) [OF r] using assms(1) by (rule int_of_str_fmt_d)
  show "int_of_str (slice 5 8 (vexfmt y d h m s)) = Inr d"
    unfolding vexfmt_slices(2) [OF r] using assms(3) by (rule int_of_str_fmt_d)
  show "int_of_str (slice 9 11 (vexfmt y d h m s)) = Inr h"
    unfolding vexfmt_slices(3) [OF r] using assms(5) by (rule int_of_str_fmt_d)
  show "int_of_str (slice 12 14 (vexfmt y d h m s)) = Inr m"
    unfolding vexfmt_slices(4) [OF r] using assms(7) by (rule int_of_str_fmt_d)
  show "int_of_str (slice 15 17 (vexfmt y d h m s)) = Inr s"
    unfolding vexfmt_slices(5) [OF r] using assms(9) by (rule int_of_str_fmt_d)
qed

text \<open>
  C7: for a VEX date with a four-digit year, day of year from 1 (to 999, the width of
  the field), hour 0-23, minute 0-59 and second 0-59, \<open>dateVEX2sec\<close> followed by
  \<open>dateSec2VEX\<close> with the same year gives back the same string, hence the same day
  of year, hour, minute and second.
\<close>

theorem seconds_round_trip:
  assumes "0 \<le> y" "y \<le> 9999" "1 \<le> d" "d \<le> 999" "0 \<le> h" "h \<le> 23"
    "0 \<le> m" "m \<le> 59" "0 \<le> s" "s \<le> 59"
  shows "dateVEX2sec (vexfmt y d h m s) = Inr (real_of_int (s + 60 * m + 3600 * h + 86400 * d)) \<and>
         dateSec2VEX (real_of_int (s + 60 * m + 3600 * h + 86400 * d)) (PInt y)
           = Inr (vexfmt y d h m s) \<and>
         dateVEXaddsec (vexfmt y d h m s) 0 = Inr (vexfmt y d h m s) \<and>
         int_of_str (slice 5 8 (vexfmt y d h m s)) = Inr d \<and>
         int_of_str (slice 9 11 (vexfmt y d h m s)) = Inr h \<and>
         int_of_str (slice 12 14 (vexfmt y d h m s)) = Inr m \<and>
         int_of_str (slice 15 17 (vexfmt y d h m s)) = Inr s"
proof -
  let ?v = "vexfmt y d h m s"
  let ?n = "s + 60 * m + 3600 * h + 86400 * d"
  have p: "int_of_str (slice 0 4 ?v) = Inr y" "int_of_str (slice 5 8 ?v) = Inr d"
    "int_of_str (slice 9 11 ?v) = Inr h" "int_of_str (slice 12 14 ?v) = Inr m"
    "int_of_str (slice 15 17 ?v) = Inr s"
    using assms by (simp_all add: vexfmt_parse)
  have d0: "0 \<le> d" using assms by simp
  note dec = decompose_seconds [OF d0 assms(5-10)]
  have rt: "dateSec2VEX (real_of_int ?n) (PInt y) = Inr ?v"
    using dateSec2VEX_int [OF dec(1), of y] by (simp only: Let_def dec)
  have sec: "dateVEX2sec ?v = Inr (real_of_int ?n)"
    using p(2-5) by (rule dateVEX2sec_fields)
  have "dateVEXaddsec ?v 0 = dateSec2VEX (real_of_int (?n + 0)) (PInt y)"
    using p by (rule dateVEXaddsec_fields)
  with rt have "dateVEXaddsec ?v 0 = Inr ?v" by simp
  with sec rt p show ?thesis by simp
qed

theorem seconds_round_trip_witness:
  "dateVEX2sec ''2015y262d11h56m15s'' = Inr 22679775 \<and>
   dateSec2VEX 22679775 (PInt 2015) = Inr ''2015y262d11h56m15s'' \<and>
   dateVEXaddsec ''2015y262d11h56m15s'' 0 = Inr ''2015y262d11h56m15s''"
proof -
  have f: "vexfmt 2015 262 11 56 15 = ''2015y262d11h56m15s''" by (simp add: fmt_eval)
  from seconds_round_trip [of 2015 262 11 56 15] show ?thesis by (simp add: f)
qed

section \<open>The worked example, evaluated\<close>

lemma split_2015_1105:
  "dateVEX2split ''2015y262d11h05m00s'' =
     Inr \<lparr>vex = ''2015y262d11h05m00s'', yr = 2015, doy = 262, hh = 11, mm = 5, ss = 0,
          mon = 9, mday = 19, mjd = 57284 + 11 / 24 + 5 / 1440\<rparr>"
  by code_simp

lemma split_2015_1120:
  "dateVEX2split ''2015y262d11h20m00s'' =
     Inr \<lparr>vex = ''2015y262d11h20m00s'', yr = 2015, doy = 262, hh = 11, mm = 20, ss = 0,
          mon = 9, mday = 19, mjd = 57284 + 11 / 24 + 20 / 1440\<rparr>"
  by code_simp

lemma split_2015_1125:
  "dateVEX2split ''2015y262d11h25m00s'' =
     Inr \<lparr>vex = ''2015y262d11h25m00s'', yr = 2015, doy = 262, hh = 11, mm = 25, ss = 0,
          mon = 9, mday = 19, mjd = 57284 + 11 / 24 + 25 / 1440\<rparr>"
  by code_simp

lemma split_2015_1130:
  "dateVEX2split ''2015y262d11h30m00s'' =
     Inr \<lparr>vex = ''2015y262d11h30m00s'', yr = 2015, doy = 262, hh = 11, mm = 30, ss = 0,
          mon = 9, mday = 19, mjd = 57284 + 11 / 24 + 30 / 1440\<rparr>"
  by code_simp

lemmas split_2015 = split_2015_a split_2015_1105 split_2015_1120 split_2015_1125 split_2015_1130

lemma fmt_d_small:
  "fmt_d 0 0 = ''0''" "fmt_d 0 1 = ''1''" "fmt_d 0 2 = ''2''" "fmt_d 0 4 = ''4''"
  "fmt_d 0 5 = ''5''" "fmt_d 0 6 = ''6''" "fmt_d 0 13 = ''13''" "fmt_d 0 16 = ''16''"
  by (simp_all add: fmt_eval)

lemma doFlag_ex_first:
  "doFlag ex_globals ''2015y262d11h00m00s'' ''2015y262d11h00m00s'' p q zl = Inr zl"
  by (simp add: doFlag_def ebind_def split_2015 mjd_offset_def ex_globals_def)

lemma doFlag_ex_middle:
  "doFlag ex_globals ''2015y262d11h05m00s'' ''2015y262d11h20m00s'' p q zl = Inr (zl @ [''1:4''])"
  by (simp add: doFlag_def ebind_def split_2015 mjd_offset_def ex_globals_def fmt_d_small)

lemma doFlag_ex_last:
  "doFlag ex_globals ''2015y262d11h25m00s'' ''2015y262d11h30m00s'' p q zl = Inr (zl @ [''5:6''])"
  by (simp add: doFlag_def ebind_def split_2015 mjd_offset_def ex_globals_def fmt_d_small)

lemma doFlag_ex_other_tint:
  "doFlag (ex_globals\<lparr>fb_Tint := 600 / 86400\<rparr>) ''2015y262d11h05m00s'' ''2015y262d11h20m00s'' p q zl
     = Inr (zl @ [''0:2''])"
  by (simp add: doFlag_def ebind_def split_2015 mjd_offset_def ex_globals_def fmt_d_small
      floor_eq_iff)

lemma doFlag_ex_other_tstart:
  "doFlag (ex_globals\<lparr>fb_Tstart := PFloat (57284 + 10 / 24)\<rparr>) ''2015y262d11h05m00s''
      ''2015y262d11h20m00s'' p q zl
     = Inr (zl @ [''13:16''])"
  by (simp add: doFlag_def ebind_def split_2015 mjd_offset_def ex_globals_def fmt_d_small)

lemma upper_stationA: "upper ''stationA'' = ''STATIONA''"
  by code_simp

lemma dwell_300: "dwell_sec (''stationA'', ''0 sec'', ''300 sec'') = Inr 300"
  by code_simp

lemma addsec_1100: "dateVEXaddsec ''2015y262d11h00m00s'' 300 = Inr ''2015y262d11h05m00s''"
proof -
  have "dateVEXaddsec ''2015y262d11h00m00s'' 300 =
          dateSec2VEX (real_of_int (0 + 60 * 0 + 3600 * 11 + 86400 * 262 + 300)) (PInt 2015)"
    by (rule dateVEXaddsec_fields) (simp_all add: parse_eval)
  also have "\<dots> = Inr (vexfmt 2015 262 11 5 0)"
    by (subst dateSec2VEX_int) (simp_all add: Let_def)
  finally show ?thesis by (simp add: fmt_eval)
qed

lemma addsec_1120: "dateVEXaddsec ''2015y262d11h20m00s'' 300 = Inr ''2015y262d11h25m00s''"
proof -
  have "dateVEXaddsec ''2015y262d11h20m00s'' 300 =
          dateSec2VEX (real_of_int (0 + 60 * 20 + 3600 * 11 + 86400 * 262 + 300)) (PInt 2015)"
    by (rule dateVEXaddsec_fields) (simp_all add: parse_eval)
  also have "\<dots> = Inr (vexfmt 2015 262 11 25 0)"
    by (subst dateSec2VEX_int) (simp_all add: Let_def)
  finally show ?thesis by (simp add: fmt_eval)
qed

lemma ex_station_loop: "station_loop ''STATIONA'' (map fst ex_sched) ex_sched = Inr ex_sched"
  by (simp add: ex_sched_def getitem_def on_station_def upper_stationA)

lemma ex_source_loop:
  "source_loop ''X'' (map fst ex_sched) ex_sched = Inr [ex_sched ! 0, ex_sched ! 2]"
  by (simp add: ex_sched_def getitem_def delitem_def)

lemma ex_zap_record:
  "zap_all record_call ''STATIONA'' (snd (ex_sched ! 0)) (snd (ex_sched ! 2))
      ''2015y262d11h30m00s'' [ex_sched ! 0, ex_sched ! 2] [] =
   Inr [(''2015y262d11h00m00s'', ''2015y262d11h00m00s''),
        (''2015y262d11h05m00s'', ''2015y262d11h20m00s''),
        (''2015y262d11h25m00s'', ''2015y262d11h30m00s'')]"
  by (simp add: zap_all_def ex_sched_def getitem_def upper_stationA dwell_300 addsec_1100
      addsec_1120 record_call_def)

lemma ex_zap_doFlag:
  "zap_all (\<lambda>a b. doFlag ex_globals a b (fb_Tstart ex_globals) (fb_Tint ex_globals))
      ''STATIONA'' (snd (ex_sched ! 0)) (snd (ex_sched ! 2))
      ''2015y262d11h30m00s'' [ex_sched ! 0, ex_sched ! 2] [] =
   Inr [''1:4'', ''5:6'']"
  by (simp add: zap_all_def ex_sched_def getitem_def upper_stationA dwell_300 addsec_1100
      addsec_1120 doFlag_ex_first doFlag_ex_middle doFlag_ex_last)

lemma ex_pipeline:
  "pipeline flag acc (Some (57284 + 11 / 24)) (Some 0.625) 1 ''X'' ''stationA''
      ''2015y262d11h30m00s'' ex_sched =
   (case zap_all (flag ex_globals) ''STATIONA'' (snd (ex_sched ! 0)) (snd (ex_sched ! 2))
           ''2015y262d11h30m00s'' [ex_sched ! 0, ex_sched ! 2] acc of
      Inl e \<Rightarrow> Raised e
    | Inr zl \<Rightarrow> Finished [ex_sched ! 0, ex_sched ! 2] zl)"
proof -
  have g: "getitem ex_sched (hd (map fst ex_sched)) = Inr (snd (ex_sched ! 0))"
    "getitem ex_sched (last (map fst ex_sched)) = Inr (snd (ex_sched ! 2))"
    by (simp_all add: ex_sched_def getitem_def)
  have l: "length ex_sched = 3" by (simp add: ex_sched_def)
  have eg: "\<lparr>fb_Tstart = PFloat (57284 + 11 / 24), fb_Tint = 0.625 / 86400 * 480 * 1\<rparr> = ex_globals"
    by (simp add: ex_globals_def)
  show ?thesis
    unfolding pipeline_def Let_def upper_stationA
    by (simp add: ex_station_loop ex_source_loop g l eg [simplified])
qed

text \<open>
  C5: on the example schedule (X at 11:00:00, Y at 11:10:00, X at 11:20:00 of day 262
  of 2015, 300 s each on stationA, nominal stop 11:30:00), with source X, station
  stationA, the reference start at the MJD that \<open>dateVEX2split\<close> gives 11:00:00 and
  blocks of 300 s, the script calls \<open>doFlag\<close> for the gaps 11:00:00-11:00:00,
  11:05:00-11:20:00 and 11:25:00-11:30:00, in this order. The first call adds nothing,
  the second and the third add one range each, and the run ends with exactly these two
  ranges.
\<close>

theorem example_two_block_ranges:
  "\<exists>t r1 r2.
     dateVEX2split ''2015y262d11h00m00s'' = Inr t \<and>
     ex_globals = \<lparr>fb_Tstart = PFloat (mjd t), fb_Tint = 300 / 86400\<rparr> \<and>
     run (Some (mjd t)) (Some 0.625) 1 ''X'' ''stationA'' ''2015y262d11h30m00s'' ex_sched
       = Finished [ex_sched ! 0, ex_sched ! 2] [r1, r2] \<and>
     pipeline (\<lambda>g. record_call) [] (Some (mjd t)) (Some 0.625) 1 ''X'' ''stationA''
         ''2015y262d11h30m00s'' ex_sched
       = Finished [ex_sched ! 0, ex_sched ! 2]
           [(''2015y262d11h00m00s'', ''2015y262d11h00m00s''),
            (''2015y262d11h05m00s'', ''2015y262d11h20m00s''),
            (''2015y262d11h25m00s'', ''2015y262d11h30m00s'')] \<and>
     doFlag ex_globals ''2015y262d11h00m00s'' ''2015y262d11h00m00s''
         (fb_Tstart ex_globals) (fb_Tint ex_globals) [] = Inr [] \<and>
     doFlag ex_globals ''2015y262d11h05m00s'' ''2015y262d11h20m00s''
         (fb_Tstart ex_globals) (fb_Tint ex_globals) [] = Inr [r1] \<and>
     doFlag ex_globals ''2015y262d11h25m00s'' ''2015y262d11h30m00s''
         (fb_Tstart ex_globals) (fb_Tint ex_globals) [r1] = Inr [r1, r2]"
proof -
  have g: "ex_globals = \<lparr>fb_Tstart = PFloat (57284 + 11 / 24), fb_Tint = 300 / 86400\<rparr>"
    by (simp add: ex_globals_def)
  have r: "run (Some (57284 + 11 / 24)) (Some 0.625) 1 ''X'' ''stationA''
             ''2015y262d11h30m00s'' ex_sched
           = Finished [ex_sched ! 0, ex_sched ! 2] [''1:4'', ''5:6'']"
    unfolding run_def ex_pipeline ex_zap_doFlag by simp
  have c: "pipeline (\<lambda>g. record_call) [] (Some (57284 + 11 / 24)) (Some 0.625) 1 ''X''
             ''stationA'' ''2015y262d11h30m00s'' ex_sched
       = Finished [ex_sched ! 0, ex_sched ! 2]
           [(''2015y262d11h00m00s'', ''2015y262d11h00m00s''),
            (''2015y262d11h05m00s'', ''2015y262d11h20m00s''),
            (''2015y262d11h25m00s'', ''2015y262d11h30m00s'')]"
    unfolding ex_pipeline ex_zap_record by simp
  show ?thesis
    unfolding split_2015_a
    using g r c doFlag_ex_first [of "fb_Tstart ex_globals" "fb_Tint ex_globals" "[]"]
      doFlag_ex_middle [of "fb_Tstart ex_globals" "fb_Tint ex_globals" "[]"]
      doFlag_ex_last [of "fb_Tstart ex_globals" "fb_Tint ex_globals" "[''1:4'']"]
    by simp
qed

section \<open>C4 and C10: the block range of \<open>doFlag\<close>\<close>

text \<open>
  C4: with a positive block duration and a float reference start, for a gap whose two
  dates convert, \<open>doFlag\<close> computes
  \<open>startBlock = max(0, floor((mjd(start) - fb_Tstart) / fb_Tint))\<close> and
  \<open>stopBlock = max(0, ceil((mjd(stop) - fb_Tstart) / fb_Tint))\<close>. It returns the list
  unchanged, without an error, if and only if the two are equal; otherwise it appends
  the one string \<open>startBlock:stopBlock\<close>, whose two numerals read back as these
  numbers.
\<close>

theorem doFlag_block_range:
  assumes "0 < fb_Tint g" and "fb_Tstart g = PFloat t0"
    and "dateVEX2split vex_tstart = Inr t1" and "dateVEX2split vex_tstop = Inr t2"
  shows "let startBlock = max 0 \<lfloor>(mjd t1 - t0) / fb_Tint g\<rfloor>;
             stopBlock = max 0 \<lceil>(mjd t2 - t0) / fb_Tint g\<rceil>
         in (doFlag g vex_tstart vex_tstop p q zl = Inr zl \<longleftrightarrow> startBlock = stopBlock) \<and>
            (startBlock \<noteq> stopBlock \<longrightarrow>
               doFlag g vex_tstart vex_tstop p q zl
                 = Inr (zl @ [fmt_d 0 startBlock @ '':'' @ fmt_d 0 stopBlock])) \<and>
            int_of_str (fmt_d 0 startBlock) = Inr startBlock \<and>
            int_of_str (fmt_d 0 stopBlock) = Inr stopBlock"
proof -
  define startBlock where "startBlock = max 0 \<lfloor>(mjd t1 - t0) / fb_Tint g\<rfloor>"
  define stopBlock where "stopBlock = max 0 \<lceil>(mjd t2 - t0) / fb_Tint g\<rceil>"
  have nz: "fb_Tint g \<noteq> 0" using assms(1) by simp
  have d: "doFlag g vex_tstart vex_tstop p q zl =
      (if startBlock = stopBlock then Inr zl
       else Inr (zl @ [fmt_d 0 startBlock @ '':'' @ fmt_d 0 stopBlock]))"
    unfolding doFlag_def startBlock_def stopBlock_def
    by (simp add: ebind_def assms(2-4) mjd_offset_def nz Let_def)
  have "0 \<le> startBlock" "0 \<le> stopBlock" by (simp_all add: startBlock_def stopBlock_def)
  then have "int_of_str (fmt_d 0 startBlock) = Inr startBlock"
    "int_of_str (fmt_d 0 stopBlock) = Inr stopBlock"
    by (simp_all add: int_of_str_fmt_d)
  with d show ?thesis
    unfolding Let_def startBlock_def [symmetric] stopBlock_def [symmetric] by simp
qed

theorem doFlag_block_range_witness:
  "0 < fb_Tint ex_globals \<and> fb_Tstart ex_globals = PFloat (57284 + 11 / 24) \<and>
   doFlag ex_globals ''2015y262d11h00m00s'' ''2015y262d11h00m01s'' (PInt 0) 0 [] = Inr [''0:1''] \<and>
   doFlag ex_globals ''2015y262d11h00m00s'' ''2015y262d11h00m00s'' (PInt 0) 0 [] = Inr []"
proof -
  have a: "0 < fb_Tint ex_globals" "fb_Tstart ex_globals = PFloat (57284 + 11 / 24)"
    by (simp_all add: ex_globals_def)
  have c: "\<lceil>1 / 300 :: real\<rceil> = 1" by (simp add: ceiling_eq_iff)
  from doFlag_block_range [OF a split_2015_a split_2015_b, of "PInt 0" 0 "[]"]
  have "doFlag ex_globals ''2015y262d11h00m00s'' ''2015y262d11h00m01s'' (PInt 0) 0 [] = Inr [''0:1'']"
    by (simp add: ex_globals_def fmt_d_small c)
  moreover from doFlag_block_range [OF a split_2015_a split_2015_a, of "PInt 0" 0 "[]"]
  have "doFlag ex_globals ''2015y262d11h00m00s'' ''2015y262d11h00m00s'' (PInt 0) 0 [] = Inr []"
    by (simp add: ex_globals_def)
  ultimately show ?thesis using a by simp
qed

text \<open>
  C10: the result of \<open>doFlag\<close> is the same for any two pairs of values of its
  parameters \<open>fb_tstart\<close> and \<open>fb_tint\<close>; it is the globals \<open>fb_Tstart\<close> and
  \<open>fb_Tint\<close> that decide it, as the same gap flagged under two block durations, and
  under two reference starts, shows.
\<close>

theorem doFlag_ignores_parameters:
  "doFlag g vex_tstart vex_tstop p q zl = doFlag g vex_tstart vex_tstop p' q' zl \<and>
   doFlag ex_globals ''2015y262d11h05m00s'' ''2015y262d11h20m00s'' p q []
     \<noteq> doFlag (ex_globals\<lparr>fb_Tint := 600 / 86400\<rparr>)
          ''2015y262d11h05m00s'' ''2015y262d11h20m00s'' p q [] \<and>
   doFlag ex_globals ''2015y262d11h05m00s'' ''2015y262d11h20m00s'' p q []
     \<noteq> doFlag (ex_globals\<lparr>fb_Tstart := PFloat (57284 + 10 / 24)\<rparr>)
          ''2015y262d11h05m00s'' ''2015y262d11h20m00s'' p q []"
  unfolding doFlag_ex_middle doFlag_ex_other_tint doFlag_ex_other_tstart
  by (simp add: doFlag_def)

section \<open>The filter loops on a dictionary\<close>

lemma station_loop_del_loop: "station_loop T ks D = del_loop (on_station T) ks D"
  by (induction ks arbitrary: D) (simp_all split: sum.splits)

lemma source_loop_del_loop: "source_loop src ks D = del_loop (\<lambda>sc. source sc = src) ks D"
  by (induction ks arbitrary: D) (simp_all split: sum.splits)

lemma getitem_distinct:
  assumes "distinct (map fst D)" "(k, v) \<in> set D"
  shows "getitem D k = Inr v"
  using assms by (simp add: getitem_def)

lemma delitem_present:
  assumes "distinct (map fst D)" "(k, v) \<in> set D"
  shows "delitem D k = Inr (filter (\<lambda>p. fst p \<noteq> k) D)"
  using assms by (simp add: delitem_def)

lemma key_unique:
  assumes "distinct (map fst D)" "(k, v) \<in> set D" "p \<in> set D" "fst p = k"
  shows "p = (k, v)"
  using assms by (metis eq_key_imp_eq_value prod.collapse)

lemma del_loop_filter_gen:
  assumes "distinct (map fst D)" "distinct ks" "set ks \<subseteq> fst ` set D"
  shows "del_loop keep ks D = Inr (filter (\<lambda>p. fst p \<in> set ks \<longrightarrow> keep (snd p)) D)"
  using assms
proof (induction ks arbitrary: D)
  case Nil
  then show ?case by simp
next
  case (Cons k ks)
  from Cons.prems(3) obtain v where kv: "(k, v) \<in> set D" by auto
  have g: "getitem D k = Inr v" using Cons.prems(1) kv by (rule getitem_distinct)
  have knot: "k \<notin> set ks" and dks: "distinct ks" using Cons.prems(2) by simp_all
  show ?case
  proof (cases "keep v")
    case True
    have sub: "set ks \<subseteq> fst ` set D" using Cons.prems(3) by simp
    have "del_loop keep (k # ks) D = del_loop keep ks D" using g True by simp
    also have "\<dots> = Inr (filter (\<lambda>p. fst p \<in> set ks \<longrightarrow> keep (snd p)) D)"
      using Cons.prems(1) dks sub by (rule Cons.IH)
    also have "filter (\<lambda>p. fst p \<in> set ks \<longrightarrow> keep (snd p)) D
             = filter (\<lambda>p. fst p \<in> set (k # ks) \<longrightarrow> keep (snd p)) D"
    proof (rule filter_cong [OF refl])
      fix p assume p: "p \<in> set D"
      show "(fst p \<in> set ks \<longrightarrow> keep (snd p)) = (fst p \<in> set (k # ks) \<longrightarrow> keep (snd p))"
      proof (cases "fst p = k")
        case True
        with key_unique [OF Cons.prems(1) kv p] have "p = (k, v)" by simp
        with \<open>keep v\<close> show ?thesis by simp
      next
        case False
        then show ?thesis by simp
      qed
    qed
    finally show ?thesis .
  next
    case False
    let ?D = "filter (\<lambda>p. fst p \<noteq> k) D"
    have d: "delitem D k = Inr ?D" using Cons.prems(1) kv by (rule delitem_present)
    have dist: "distinct (map fst ?D)" using Cons.prems(1) by (simp add: distinct_map_filter)
    have sub: "set ks \<subseteq> fst ` set ?D"
    proof
      fix x assume x: "x \<in> set ks"
      with Cons.prems(3) obtain w where "(x, w) \<in> set D" by auto
      moreover from x knot have "x \<noteq> k" by auto
      ultimately have "(x, w) \<in> set ?D" by simp
      then show "x \<in> fst ` set ?D" by force
    qed
    have "del_loop keep (k # ks) D = del_loop keep ks ?D" using g d False by simp
    also have "\<dots> = Inr (filter (\<lambda>p. fst p \<in> set ks \<longrightarrow> keep (snd p)) ?D)"
      using dist dks sub by (rule Cons.IH)
    also have "filter (\<lambda>p. fst p \<in> set ks \<longrightarrow> keep (snd p)) ?D
             = filter (\<lambda>p. fst p \<in> set (k # ks) \<longrightarrow> keep (snd p)) D"
      unfolding filter_filter
    proof (rule filter_cong [OF refl])
      fix p assume p: "p \<in> set D"
      show "(fst p \<noteq> k \<and> (fst p \<in> set ks \<longrightarrow> keep (snd p)))
              = (fst p \<in> set (k # ks) \<longrightarrow> keep (snd p))"
      proof (cases "fst p = k")
        case True
        with key_unique [OF Cons.prems(1) kv p] have "p = (k, v)" by simp
        with \<open>\<not> keep v\<close> show ?thesis by simp
      next
        case False
        then show ?thesis by simp
      qed
    qed
    finally show ?thesis .
  qed
qed

lemma del_loop_filter:
  assumes "distinct (map fst D)"
  shows "del_loop keep (map fst D) D = Inr (filter (\<lambda>p. keep (snd p)) D)"
proof -
  have "del_loop keep (map fst D) D
          = Inr (filter (\<lambda>p. fst p \<in> set (map fst D) \<longrightarrow> keep (snd p)) D)"
    using assms by (intro del_loop_filter_gen) simp_all
  also have "filter (\<lambda>p. fst p \<in> set (map fst D) \<longrightarrow> keep (snd p)) D
               = filter (\<lambda>p. keep (snd p)) D"
    by (rule filter_cong [OF refl]) simp
  finally show ?thesis .
qed

lemma station_loop_filter:
  "distinct (map fst D) \<Longrightarrow> station_loop T (map fst D) D = Inr (filter (station_ok T) D)"
  unfolding station_loop_del_loop using del_loop_filter [of D "on_station T"]
  by (simp add: station_ok_def [abs_def])

lemma source_loop_filter:
  "distinct (map fst D) \<Longrightarrow> source_loop src (map fst D) D = Inr (filter (source_ok src) D)"
  unfolding source_loop_del_loop using del_loop_filter [of D "\<lambda>sc. source sc = src"]
  by (simp add: source_ok_def [abs_def])

lemma getitem_hd:
  assumes "D \<noteq> []"
  shows "getitem D (hd (map fst D)) = Inr (snd (hd D))"
  using assms by (cases D) (auto simp: getitem_def)

lemma getitem_last:
  assumes "D \<noteq> []" "distinct (map fst D)"
  shows "getitem D (last (map fst D)) = Inr (snd (last D))"
proof -
  have "(fst (last D), snd (last D)) \<in> set D" using assms(1) by simp
  with assms(2) have "getitem D (fst (last D)) = Inr (snd (last D))"
    by (rule getitem_distinct)
  then show ?thesis using assms(1) by (simp add: last_map)
qed

text \<open>The pipeline on a dictionary (distinct keys), with the two loops read as filters.\<close>

lemma pipeline_filters:
  assumes "distinct (map fst S)"
    and T_def: "T = upper arg"
    and S1_def: "S1 = filter (station_ok T) S"
    and S2_def: "S2 = filter (source_ok src) S1"
  shows "pipeline flag acc startmjd (Some ti) blocks src arg stop S =
     (if length S1 \<le> 1 then NothingToDo (if length S \<le> 1 then S else S1)
      else if S2 = [] then NothingToDo S2
      else case zap_all
                  (flag \<lparr>fb_Tstart = (case startmjd of None \<Rightarrow> PStr (start (snd (hd S1)))
                                                      | Some t \<Rightarrow> PFloat t),
                         fb_Tint = ti / 86400 * 480 * real_of_int blocks\<rparr>)
                  T (snd (hd S1)) (snd (last S1)) stop S2 acc of
             Inl e \<Rightarrow> Raised e
           | Inr zl \<Rightarrow> Finished S2 zl)"
proof -
  have d1: "distinct (map fst S1)" using assms(1) by (simp add: S1_def distinct_map_filter)
  have l1: "station_loop T (map fst S) S = Inr S1"
    unfolding S1_def using assms(1) by (rule station_loop_filter)
  have l2: "source_loop src (map fst S1) S1 = Inr S2"
    unfolding S2_def using d1 by (rule source_loop_filter)
  have le: "length S1 \<le> length S" by (simp add: S1_def)
  show ?thesis
  proof (cases "length S \<le> 1")
    case True
    with le have "length S1 \<le> 1" by simp
    with True show ?thesis by (simp add: pipeline_def Let_def)
  next
    case False
    show ?thesis
    proof (cases "length S1 \<le> 1")
      case True
      with False show ?thesis
        by (simp add: pipeline_def Let_def T_def [symmetric] l1)
    next
      case False
      then have ne: "S1 \<noteq> []" by auto
      have g1: "getitem S1 (hd (map fst S1)) = Inr (snd (hd S1))" using ne by (rule getitem_hd)
      have gN: "getitem S1 (last (map fst S1)) = Inr (snd (last S1))"
        using ne d1 by (rule getitem_last)
      have len2: "(length S2 < 1) = (S2 = [])" by auto
      from False \<open>\<not> length S \<le> 1\<close> show ?thesis
        by (simp add: pipeline_def Let_def T_def [symmetric] l1 l2 g1 gN len2 del: One_nat_def)
    qed
  qed
qed

section \<open>C3: the calls of the zap loop\<close>

lemma zap_stations_filter:
  "zap_stations flag T stop ls st
     = zap_stations flag T stop (filter (\<lambda>l. upper (fst l) = T) ls) st"
  by (induction ls arbitrary: st) (simp_all split: sum.splits)

lemma zap_stations_single:
  assumes "station_lines T sc = [l]"
  shows "zap_stations flag T stop (station sc) st =
           (case flag (fst st) stop (snd st) of
              Inl e \<Rightarrow> Inl e
            | Inr acc \<Rightarrow>
                (case dwell_sec l of
                   Inl e \<Rightarrow> Inl e
                 | Inr k \<Rightarrow>
                     (case dateVEXaddsec stop k of
                        Inl e \<Rightarrow> Inl e
                      | Inr z \<Rightarrow> Inr (z, acc))))"
proof -
  from assms have f: "filter (\<lambda>l. upper (fst l) = T) (station sc) = [l]"
    by (simp add: station_lines_def)
  then have "l \<in> set (filter (\<lambda>l. upper (fst l) = T) (station sc))" by simp
  then have m: "upper (fst l) = T" by simp
  show ?thesis
    by (subst zap_stations_filter) (simp add: f m split: sum.splits)
qed

lemma zap_loop_record:
  assumes "distinct (map fst D)"
    and "list_all2 (\<lambda>p c. \<exists>l k. station_lines T (snd p) = [l] \<and> dwell_sec l = Inr k \<and>
                                 dateVEXaddsec (start (snd p)) k = Inr c) ps cs"
    and "set ps \<subseteq> set D"
  shows "zap_loop record_call T (map fst ps) D (c0, acc)
           = Inr (last (c0 # cs), acc @ zip (c0 # cs) (map (\<lambda>p. start (snd p)) ps))"
  using assms(2,3)
proof (induction ps cs arbitrary: c0 acc rule: list_all2_induct)
  case Nil
  then show ?case by simp
next
  case (Cons p ps c cs)
  from Cons.hyps(1) obtain l k where
    l: "station_lines T (snd p) = [l]" and k: "dwell_sec l = Inr k"
    and a: "dateVEXaddsec (start (snd p)) k = Inr c" by blast
  from Cons.prems have "(fst p, snd p) \<in> set D" by simp
  with assms(1) have g: "getitem D (fst p) = Inr (snd p)" by (rule getitem_distinct)
  have s: "zap_stations record_call T (start (snd p)) (station (snd p)) (c0, acc)
             = Inr (c, acc @ [(c0, start (snd p))])"
    by (simp add: zap_stations_single [OF l] record_call_def k a)
  have sub: "set ps \<subseteq> set D" using Cons.prems by simp
  show ?case
    using Cons.IH [OF sub, of c "acc @ [(c0, start (snd p))]"]
    by (simp add: g s)
qed

text \<open>
  C3: take a schedule dictionary whose station-filtered part \<open>S1\<close> has at least two
  scans and whose source-filtered part \<open>S2\<close> is not empty, each scan of \<open>S2\<close> with
  one station line for the telescope, a dwell \<open>k\<close> that parses and a cursor
  \<open>c = dateVEXaddsec start k\<close>. Then the calls of \<open>doFlag\<close>, in order, are: for
  each scan of \<open>S2\<close> the pair of the cursor and the scan's start, where the cursor
  begins at the start of the first scan of \<open>S1\<close> and after each scan is that scan's
  \<open>c\<close>; and one last call from the cursor to the nominal stop if and only if the cursor
  differs from the start of the last scan of \<open>S1\<close>.
\<close>

theorem zap_loop_calls:
  assumes "distinct (map fst S)"
    and "S1 = filter (station_ok (upper arg)) S" and "2 \<le> length S1"
    and "S2 = filter (source_ok src) S1" and "S2 \<noteq> []"
    and "list_all2 (\<lambda>p c. \<exists>l k. station_lines (upper arg) (snd p) = [l] \<and> dwell_sec l = Inr k \<and>
                                 dateVEXaddsec (start (snd p)) k = Inr c) S2 cs"
    and "cursor = last (start (snd (hd S1)) # cs)"
  shows "pipeline (\<lambda>g. record_call) [] startmjd (Some ti) blocks src arg nominal_stop S =
           Finished S2
             (zip (start (snd (hd S1)) # cs) (map (\<lambda>p. start (snd p)) S2) @
              (if cursor \<noteq> start (snd (last S1)) then [(cursor, nominal_stop)] else []))"
proof -
  have d1: "distinct (map fst S1)" using assms(1,2) by (simp add: distinct_map_filter)
  then have d2: "distinct (map fst S2)" using assms(4) by (simp add: distinct_map_filter)
  have z: "zap_loop record_call (upper arg) (map fst S2) S2 (start (snd (hd S1)), [])
             = Inr (cursor, [] @ zip (start (snd (hd S1)) # cs) (map (\<lambda>p. start (snd p)) S2))"
    unfolding assms(7) using d2 assms(6) by (rule zap_loop_record) simp
  have za: "zap_all record_call (upper arg) (snd (hd S1)) (snd (last S1)) nominal_stop S2 []
      = Inr (zip (start (snd (hd S1)) # cs) (map (\<lambda>p. start (snd p)) S2) @
              (if cursor \<noteq> start (snd (last S1)) then [(cursor, nominal_stop)] else []))"
    by (simp add: zap_all_def z record_call_def)
  have n1: "\<not> length S1 \<le> 1" using assms(3) by simp
  show ?thesis
    using pipeline_filters [OF assms(1) refl assms(2) assms(4), of "\<lambda>g. record_call" "[]"
        startmjd ti blocks nominal_stop] n1 assms(5)
    by (simp add: za)
qed

lemma ex_distinct: "distinct (map fst ex_sched)"
  by (simp add: ex_sched_def)

lemma ex_station_filter: "filter (station_ok (upper ''stationA'')) ex_sched = ex_sched"
  by (simp add: ex_sched_def station_ok_def on_station_def upper_stationA)

lemma ex_source_filter: "filter (source_ok ''X'') ex_sched = [ex_sched ! 0, ex_sched ! 2]"
  by (simp add: ex_sched_def source_ok_def)

lemma ex_station_lines:
  "station_lines (upper ''stationA'') (snd (ex_sched ! 0)) = [(''stationA'', ''0 sec'', ''300 sec'')]"
  "station_lines (upper ''stationA'') (snd (ex_sched ! 2)) = [(''stationA'', ''0 sec'', ''300 sec'')]"
  by (simp_all add: ex_sched_def station_lines_def upper_stationA)

theorem zap_loop_calls_witness:
  "distinct (map fst ex_sched) \<and>
   2 \<le> length (filter (station_ok (upper ''stationA'')) ex_sched) \<and>
   filter (source_ok ''X'') (filter (station_ok (upper ''stationA'')) ex_sched) \<noteq> [] \<and>
   pipeline (\<lambda>g. record_call) [] None (Some 0.625) 1 ''X'' ''stationA''
       ''2015y262d11h30m00s'' ex_sched
     = Finished [ex_sched ! 0, ex_sched ! 2]
         [(''2015y262d11h00m00s'', ''2015y262d11h00m00s''),
          (''2015y262d11h05m00s'', ''2015y262d11h20m00s''),
          (''2015y262d11h25m00s'', ''2015y262d11h30m00s'')]"
proof -
  let ?S1 = "filter (station_ok (upper ''stationA'')) ex_sched"
  let ?S2 = "filter (source_ok ''X'') ?S1"
  let ?cs = "[''2015y262d11h05m00s'', ''2015y262d11h25m00s'']"
  have l: "2 \<le> length ?S1" by (simp add: ex_station_filter) (simp add: ex_sched_def)
  have s2: "?S2 = [ex_sched ! 0, ex_sched ! 2]" by (simp add: ex_station_filter ex_source_filter)
  then have ne: "?S2 \<noteq> []" by simp
  have st: "start (snd (ex_sched ! 0)) = ''2015y262d11h00m00s''"
    "start (snd (ex_sched ! 2)) = ''2015y262d11h20m00s''"
    "start (snd (hd ex_sched)) = ''2015y262d11h00m00s''"
    "start (snd (last ex_sched)) = ''2015y262d11h20m00s''"
    by (simp_all add: ex_sched_def)
  have la: "list_all2 (\<lambda>p c. \<exists>l k. station_lines (upper ''stationA'') (snd p) = [l] \<and>
               dwell_sec l = Inr k \<and> dateVEXaddsec (start (snd p)) k = Inr c) ?S2 ?cs"
    unfolding s2 using dwell_300 addsec_1100 addsec_1120
    by (simp add: ex_station_lines st)
  from zap_loop_calls [OF ex_distinct refl l refl ne la refl, of None "0.625" 1 "''2015y262d11h30m00s''"]
  have "pipeline (\<lambda>g. record_call) [] None (Some 0.625) 1 ''X'' ''stationA''
       ''2015y262d11h30m00s'' ex_sched
     = Finished [ex_sched ! 0, ex_sched ! 2]
         [(''2015y262d11h00m00s'', ''2015y262d11h00m00s''),
          (''2015y262d11h05m00s'', ''2015y262d11h20m00s''),
          (''2015y262d11h25m00s'', ''2015y262d11h30m00s'')]"
    by (simp add: ex_station_filter ex_source_filter st)
  with ex_distinct l ne show ?thesis by blast
qed

section \<open>C1: when the run stops with nothing to do\<close>

lemma upper_Ku: "upper ''Ku'' = ''KU''" "upper ''Kt'' = ''KT''"
  by code_simp+

lemma one_station_filter:
  "filter (station_ok (upper ''Ku'')) one_station_sched = [one_station_sched ! 0]"
  by (simp add: one_station_sched_def station_ok_def on_station_def upper_Ku)

text \<open>
  Of the two scans of \<open>one_station_sched\<close> one includes station Ku. The
  station-filtered schedule has exactly one entry, and the run stops with "nothing to do".
\<close>

theorem one_station_scan_is_nothing_to_do:
  "length (filter (station_ok (upper ''Ku'')) one_station_sched) = 1 \<and>
   filter (source_ok ''X'') (filter (station_ok (upper ''Ku'')) one_station_sched) \<noteq> [] \<and>
   run (Some 57284) (Some 0.625) 1 ''X'' ''Ku'' ''2015y262d11h30m00s'' one_station_sched
     = NothingToDo [one_station_sched ! 0]"
proof -
  have d: "distinct (map fst one_station_sched)" by (simp add: one_station_sched_def)
  have l: "length one_station_sched = 2" by (simp add: one_station_sched_def)
  have s: "source_ok ''X'' (one_station_sched ! 0)"
    by (simp add: one_station_sched_def source_ok_def)
  show ?thesis
    unfolding run_def pipeline_filters [OF d refl refl refl]
    by (simp add: one_station_filter l s)
qed

text \<open>
  C1 (amended): on a schedule dictionary, with an integration time given, the run stops
  with the non-error "nothing to do" outcome exactly when the station-filtered schedule
  has at most one entry or the source-filtered schedule has none. Otherwise the zap loop
  runs on the source-filtered schedule. So a station-filtered result with exactly one
  entry counts as nothing to do, and a source-filtered result with exactly one entry is
  processed.
\<close>

theorem nothing_to_do_iff:
  assumes "distinct (map fst S)"
    and "S1 = filter (station_ok (upper arg)) S" and "S2 = filter (source_ok src) S1"
  shows "((\<exists>s. run startmjd (Some ti) blocks src arg nominal_stop S = NothingToDo s)
            \<longleftrightarrow> (length S1 \<le> 1 \<or> length S2 < 1)) \<and>
         (\<not> (length S1 \<le> 1 \<or> length S2 < 1) \<longrightarrow>
            (\<exists>g. run startmjd (Some ti) blocks src arg nominal_stop S =
               (case zap_all (\<lambda>a b. doFlag g a b (fb_Tstart g) (fb_Tint g)) (upper arg)
                       (snd (hd S1)) (snd (last S1)) nominal_stop S2 [] of
                  Inl e \<Rightarrow> Raised e
                | Inr zl \<Rightarrow> Finished S2 zl)))"
proof -
  have len2: "(length S2 < 1) = (S2 = [])" by auto
  note p = pipeline_filters [OF assms(1) refl assms(2) assms(3),
      of "\<lambda>g a b. doFlag g a b (fb_Tstart g) (fb_Tint g)" "[]" startmjd ti blocks nominal_stop]
  show ?thesis
  proof (cases "length S1 \<le> 1 \<or> length S2 < 1")
    case True
    then show ?thesis unfolding run_def p len2 by auto
  next
    case False
    then have n: "\<not> length S1 \<le> 1" "S2 \<noteq> []" by auto
    have r: "run startmjd (Some ti) blocks src arg nominal_stop S =
        (case zap_all (\<lambda>a b. doFlag
              \<lparr>fb_Tstart = (case startmjd of None \<Rightarrow> PStr (start (snd (hd S1)))
                                             | Some t \<Rightarrow> PFloat t),
                fb_Tint = ti / 86400 * 480 * real_of_int blocks\<rparr> a b
              (fb_Tstart \<lparr>fb_Tstart = (case startmjd of None \<Rightarrow> PStr (start (snd (hd S1)))
                                             | Some t \<Rightarrow> PFloat t),
                fb_Tint = ti / 86400 * 480 * real_of_int blocks\<rparr>)
              (fb_Tint \<lparr>fb_Tstart = (case startmjd of None \<Rightarrow> PStr (start (snd (hd S1)))
                                             | Some t \<Rightarrow> PFloat t),
                fb_Tint = ti / 86400 * 480 * real_of_int blocks\<rparr>))
            (upper arg) (snd (hd S1)) (snd (last S1)) nominal_stop S2 [] of
           Inl e \<Rightarrow> Raised e
         | Inr zl \<Rightarrow> Finished S2 zl)"
      unfolding run_def p using n by (simp only: if_False)
    have nn: "\<not> (\<exists>s. run startmjd (Some ti) blocks src arg nominal_stop S = NothingToDo s)"
      unfolding r by (simp split: sum.splits)
    from r have "\<exists>g. run startmjd (Some ti) blocks src arg nominal_stop S =
               (case zap_all (\<lambda>a b. doFlag g a b (fb_Tstart g) (fb_Tint g)) (upper arg)
                       (snd (hd S1)) (snd (last S1)) nominal_stop S2 [] of
                  Inl e \<Rightarrow> Raised e
                | Inr zl \<Rightarrow> Finished S2 zl)"
      by (rule exI)
    with nn False show ?thesis by blast
  qed
qed

theorem nothing_to_do_iff_witness:
  "distinct (map fst ex_sched) \<and>
   length (filter (source_ok ''Z'') (filter (station_ok (upper ''stationA'')) ex_sched)) < 1 \<and>
   (\<exists>s. run (Some 57284) (Some 0.625) 1 ''Z'' ''stationA'' ''2015y262d11h30m00s'' ex_sched
          = NothingToDo s) \<and>
   \<not> (length (filter (station_ok (upper ''stationA'')) ex_sched) \<le> 1 \<or>
      length (filter (source_ok ''X'') (filter (station_ok (upper ''stationA'')) ex_sched)) < 1) \<and>
   \<not> (\<exists>s. run (Some 57284) (Some 0.625) 1 ''X'' ''stationA'' ''2015y262d11h30m00s'' ex_sched
          = NothingToDo s)"
proof -
  have z: "length (filter (source_ok ''Z'') (filter (station_ok (upper ''stationA'')) ex_sched)) < 1"
    by (simp add: ex_station_filter) (simp add: ex_sched_def source_ok_def)
  have x: "\<not> (length (filter (station_ok (upper ''stationA'')) ex_sched) \<le> 1 \<or>
      length (filter (source_ok ''X'') (filter (station_ok (upper ''stationA'')) ex_sched)) < 1)"
    by (simp add: ex_station_filter ex_source_filter) (simp add: ex_sched_def)
  from nothing_to_do_iff [OF ex_distinct refl refl, of "Some 57284" "0.625" 1 "''Z''"
      "''stationA''" "''2015y262d11h30m00s''"] z
  have a: "\<exists>s. run (Some 57284) (Some 0.625) 1 ''Z'' ''stationA'' ''2015y262d11h30m00s'' ex_sched
          = NothingToDo s" by blast
  from nothing_to_do_iff [OF ex_distinct refl refl, of "Some 57284" "0.625" 1 "''X''"
      "''stationA''" "''2015y262d11h30m00s''"] x
  have b: "\<not> (\<exists>s. run (Some 57284) (Some 0.625) 1 ''X'' ''stationA'' ''2015y262d11h30m00s'' ex_sched
          = NothingToDo s)" by blast
  from ex_distinct z a x b show ?thesis by blast
qed

section \<open>C9: what the run does to the schedule\<close>

text \<open>
  On the example schedule the run deletes the scan on Y from the dictionary: what it
  leaves behind is not the schedule it was given.
\<close>

theorem run_deletes_from_schedule:
  "\<exists>zl. run (Some (57284 + 11 / 24)) (Some 0.625) 1 ''X'' ''stationA'' ''2015y262d11h30m00s''
           ex_sched = Finished [ex_sched ! 0, ex_sched ! 2] zl \<and>
        [ex_sched ! 0, ex_sched ! 2] \<noteq> ex_sched"
  unfolding run_def ex_pipeline ex_zap_doFlag
  by (simp add: ex_sched_def)

text \<open>
  C9 (amended): the two filters delete from the schedule dictionary in place. After a
  run that finishes, the dictionary holds exactly the entries of the input that include
  the station and are on the source, unchanged and in their order. After a "nothing to
  do" stop it is the input, or the input without the entries of other stations, or the
  input without the entries of other stations and other sources. No entry is changed or
  moved; entries are only removed.
\<close>

theorem schedule_after_run:
  assumes "distinct (map fst S)"
  shows "(run startmjd tint blocks src arg nominal_stop S = Finished s zl \<longrightarrow>
            s = filter (\<lambda>p. station_ok (upper arg) p \<and> source_ok src p) S) \<and>
         (run startmjd tint blocks src arg nominal_stop S = NothingToDo s \<longrightarrow>
            s = S \<or> s = filter (station_ok (upper arg)) S \<or>
            s = filter (\<lambda>p. station_ok (upper arg) p \<and> source_ok src p) S)"
proof (cases tint)
  case None
  then show ?thesis by (simp add: run_def pipeline_def)
next
  case (Some ti)
  let ?S1 = "filter (station_ok (upper arg)) S"
  let ?S2 = "filter (source_ok src) ?S1"
  have f: "?S2 = filter (\<lambda>p. station_ok (upper arg) p \<and> source_ok src p) S"
    by (simp add: conj_commute)
  note p = pipeline_filters [OF assms refl refl refl,
      of "\<lambda>g a b. doFlag g a b (fb_Tstart g) (fb_Tint g)" "[]" startmjd ti blocks src arg
      nominal_stop]
  show ?thesis
    unfolding Some run_def p f [symmetric]
    by (auto split: if_splits sum.splits)
qed

theorem schedule_after_run_witness:
  "distinct (map fst ex_sched) \<and>
   (\<exists>zl. run (Some (57284 + 11 / 24)) (Some 0.625) 1 ''X'' ''stationA'' ''2015y262d11h30m00s''
           ex_sched = Finished [ex_sched ! 0, ex_sched ! 2] zl) \<and>
   [ex_sched ! 0, ex_sched ! 2]
     = filter (\<lambda>p. station_ok (upper ''stationA'') p \<and> source_ok ''X'' p) ex_sched"
proof -
  have r: "run (Some (57284 + 11 / 24)) (Some 0.625) 1 ''X'' ''stationA'' ''2015y262d11h30m00s''
           ex_sched = Finished [ex_sched ! 0, ex_sched ! 2] [''1:4'', ''5:6'']"
    unfolding run_def ex_pipeline ex_zap_doFlag by simp
  from schedule_after_run [OF ex_distinct, of "Some (57284 + 11 / 24)" "Some 0.625" 1 "''X''"
      "''stationA''" "''2015y262d11h30m00s''" "[ex_sched ! 0, ex_sched ! 2]" "[''1:4'', ''5:6'']"] r
  have "[ex_sched ! 0, ex_sched ! 2]
     = filter (\<lambda>p. station_ok (upper ''stationA'') p \<and> source_ok ''X'' p) ex_sched"
    by blast
  with ex_distinct r show ?thesis by blast
qed

end
